(* ===== verification/Proxy_Prelude.thy ===== *)
theory Proxy_Prelude
  imports "HOL-Library.Word"
begin

text \<open>
  Shared vocabulary of the development: Rust's fixed-width integers as words, the
  \<open>?\<close> operator on \<^verbatim>\<open>Result\<close> as \<open>and_then\<close>, bounds-checked slice access, the
  integer operations of the standard library the sources use, and Rust strings. A Rust
  \<^verbatim>\<open>String\<close> is a byte sequence that is valid UTF-8; it is modelled by a HOL
  \<^typ>\<open>string\<close> (whose characters are bytes), and \<open>from_utf8\<close> is the only way a
  string is made from bytes off the wire.
\<close>

section \<open>Machine integers and results\<close>

type_synonym u8 = "8 word"
type_synonym u16 = "16 word"
type_synonym u32 = "32 word"
type_synonym u64 = "64 word"
type_synonym bytes = "8 word list"

text \<open>A \<^verbatim>\<open>Duration\<close> is a number of nanoseconds.\<close>

type_synonym Duration = nat

definition from_secs :: "nat \<Rightarrow> Duration" where
  "from_secs s = s * 10 ^ 9"

definition from_millis :: "nat \<Rightarrow> Duration" where
  "from_millis ms = ms * 10 ^ 6"

named_theorems wire_simps "facts that evaluate the wire-format parsers"
named_theorems wire_defs "definitions of the wire-format constants"

definition and_then :: "'e + 'a \<Rightarrow> ('a \<Rightarrow> 'e + 'b) \<Rightarrow> 'e + 'b" where
  "and_then r f = (case r of Inl e \<Rightarrow> Inl e | Inr x \<Rightarrow> f x)"

definition ok_or :: "'e \<Rightarrow> 'a option \<Rightarrow> 'e + 'a" where
  "ok_or e x = (case x of None \<Rightarrow> Inl e | Some y \<Rightarrow> Inr y)"

definition map_err :: "('e \<Rightarrow> 'f) \<Rightarrow> 'e + 'a \<Rightarrow> 'f + 'a" where
  "map_err g r = (case r of Inl e \<Rightarrow> Inl (g e) | Inr x \<Rightarrow> Inr x)"

definition map_ok :: "('a \<Rightarrow> 'b) \<Rightarrow> 'e + 'a \<Rightarrow> 'e + 'b" where
  "map_ok g r = (case r of Inl e \<Rightarrow> Inl e | Inr x \<Rightarrow> Inr (g x))"

lemma and_then_simps [simp]:
  "and_then (Inl e) f = Inl e"
  "and_then (Inr x) f = f x"
  by (simp_all add: and_then_def)

lemma and_then_eq_Inr:
  "and_then r f = Inr y \<longleftrightarrow> (\<exists>x. r = Inr x \<and> f x = Inr y)"
  by (cases r) simp_all

lemma and_then_eq_Inl:
  "and_then r f = Inl e \<longleftrightarrow> r = Inl e \<or> (\<exists>x. r = Inr x \<and> f x = Inl e)"
  by (cases r) auto

lemma and_then_assoc:
  "and_then (and_then r f) g = and_then r (\<lambda>x. and_then (f x) g)"
  by (cases r) simp_all

lemma ok_or_simps [simp]:
  "ok_or e None = Inl e"
  "ok_or e (Some x) = Inr x"
  by (simp_all add: ok_or_def)

lemma map_err_simps [simp]:
  "map_err g (Inl e) = Inl (g e)"
  "map_err g (Inr x) = Inr x"
  by (simp_all add: map_err_def)

lemma map_ok_simps [simp]:
  "map_ok g (Inl e) = Inl e"
  "map_ok g (Inr x) = Inr (g x)"
  by (simp_all add: map_ok_def)

lemma map_err_eq_Inr [simp]: "map_err g r = Inr x \<longleftrightarrow> r = Inr x"
  by (cases r) simp_all

section \<open>Slices\<close>

definition slice_get :: "'a list \<Rightarrow> nat \<Rightarrow> 'a option" where
  "slice_get xs i = (if i < length xs then Some (xs ! i) else None)"

definition slice_range :: "'a list \<Rightarrow> nat \<Rightarrow> nat \<Rightarrow> 'a list option" where
  "slice_range xs a b = (if a \<le> b \<and> b \<le> length xs then Some (take (b - a) (drop a xs)) else None)"

text \<open>\<^verbatim>\<open>usize::checked_add\<close> on a 64-bit target.\<close>

definition usize_checked_add :: "nat \<Rightarrow> nat \<Rightarrow> nat option" where
  "usize_checked_add a b = (if a + b < 2 ^ 64 then Some (a + b) else None)"

lemma slice_get_drop:
  "slice_get xs i = (case drop i xs of [] \<Rightarrow> None | y # _ \<Rightarrow> Some y)"
  by (cases "i < length xs") (simp_all add: slice_get_def Cons_nth_drop_Suc [symmetric])

lemma slice_range_drop:
  "slice_range xs i (i + n) =
     (if i \<le> length xs \<and> n \<le> length (drop i xs) then Some (take n (drop i xs)) else None)"
  by (auto simp: slice_range_def)

lemma ex_take_append [simp]: "\<exists>ys. xs = take n xs @ ys"
  by (metis append_take_drop_id)

lemma drop_eq_ConsE:
  assumes "drop n xs = y # ys"
  obtains us where "xs = us @ y # ys" and "length us = n"
proof
  show "xs = take n xs @ y # ys" using assms by (metis append_take_drop_id)
  show "length (take n xs) = n" using assms by (metis drop_eq_Nil leI length_take list.distinct(1) min.absorb4)
qed

section \<open>Checked, saturating and wrapping operations\<close>

definition checked_add :: "'w::len word \<Rightarrow> 'w word \<Rightarrow> 'w word option" where
  "checked_add a b = (if unat a + unat b < 2 ^ LENGTH('w) then Some (a + b) else None)"

definition saturating_sub :: "'w::len word \<Rightarrow> 'w word \<Rightarrow> 'w word" where
  "saturating_sub a b = (if b \<le> a then a - b else 0)"

lemma checked_add_Some:
  fixes a :: "'w::len word"
  assumes "checked_add a b = Some c"
  shows "unat c = unat a + unat b"
  using assms
  by (auto simp: checked_add_def unat_word_ariths split: if_splits)

lemma unat_saturating_sub: "unat (saturating_sub a b) = unat a - unat b"
  by (auto simp: saturating_sub_def unat_sub_if' word_le_nat_alt split: if_splits)

text \<open>\<^verbatim>\<open>x as u8\<close>, \<^verbatim>\<open>x as u16\<close> and \<^verbatim>\<open>n as u8\<close> for a length.\<close>

definition len_as_u8 :: "nat \<Rightarrow> u8" where
  "len_as_u8 n = word_of_nat n"

lemma unat_len_as_u8: "unat (len_as_u8 n) = n mod 256"
  by (simp add: len_as_u8_def unat_of_nat)

lemma unat_u8_less: "unat (b :: u8) < 256"
  using unsigned_less [of b, where 'a = nat] by simp

lemma u8_le_255: "unat (b :: u8) \<le> 255"
  using unat_u8_less [of b] by linarith

lemma u8_not_above_255 [simp]: "255 < unat (b :: u8) \<longleftrightarrow> False"
  using u8_le_255 [of b] by simp

lemma len_as_u8_eq: "n \<le> 255 \<Longrightarrow> unat (len_as_u8 n) = n"
  by (simp add: unat_len_as_u8)

lemma len_as_u8_eq_0_iff: "n \<le> 255 \<Longrightarrow> len_as_u8 n = 0 \<longleftrightarrow> n = 0"
  by (metis len_as_u8_eq unat_eq_zero)

lemma len_as_u8_unat [simp]: "len_as_u8 (unat b) = b"
  by (simp add: len_as_u8_def)

section \<open>Strings\<close>

definition byte_of_char :: "char \<Rightarrow> u8" where
  "byte_of_char c = word_of_nat (of_char c)"

definition char_of_byte :: "u8 \<Rightarrow> char" where
  "char_of_byte b = char_of (unat b)"

definition as_bytes :: "string \<Rightarrow> bytes" where
  "as_bytes s = map byte_of_char s"

lemma char_of_byte_of_char [simp]: "char_of_byte (byte_of_char c) = c"
  by (simp add: char_of_byte_def byte_of_char_def unat_of_nat)

lemma byte_of_char_of_byte [simp]: "byte_of_char (char_of_byte b) = b"
  by (simp add: char_of_byte_def byte_of_char_def unat_u8_less)

lemma length_as_bytes [simp]: "length (as_bytes s) = length s"
  by (simp add: as_bytes_def)

lemma as_bytes_inject [simp]: "as_bytes s = as_bytes t \<longleftrightarrow> s = t"
proof
  assume "as_bytes s = as_bytes t"
  then have "map char_of_byte (as_bytes s) = map char_of_byte (as_bytes t)" by simp
  then show "s = t" by (simp add: as_bytes_def comp_def)
qed simp

lemma map_char_of_byte_as_bytes [simp]: "map char_of_byte (as_bytes s) = s"
  by (simp add: as_bytes_def comp_def)

lemma as_bytes_map_char_of_byte [simp]: "as_bytes (map char_of_byte bs) = bs"
  by (simp add: as_bytes_def comp_def)

text \<open>
  The validity test of \<^verbatim>\<open>String::from_utf8\<close>: well-formed UTF-8 (no overlong form, no
  surrogate, nothing above U+10FFFF).
\<close>

definition utf8_cont :: "u8 \<Rightarrow> bool" where
  "utf8_cont b \<longleftrightarrow> 0x80 \<le> b \<and> b \<le> 0xBF"

definition utf8_second3 :: "u8 \<Rightarrow> u8 \<Rightarrow> bool" where
  "utf8_second3 b1 b2 \<longleftrightarrow>
     (b1 = 0xE0 \<and> 0xA0 \<le> b2 \<and> b2 \<le> 0xBF) \<or>
     (0xE1 \<le> b1 \<and> b1 \<le> 0xEC \<and> utf8_cont b2) \<or>
     (b1 = 0xED \<and> 0x80 \<le> b2 \<and> b2 \<le> 0x9F) \<or>
     (0xEE \<le> b1 \<and> b1 \<le> 0xEF \<and> utf8_cont b2)"

definition utf8_second4 :: "u8 \<Rightarrow> u8 \<Rightarrow> bool" where
  "utf8_second4 b1 b2 \<longleftrightarrow>
     (b1 = 0xF0 \<and> 0x90 \<le> b2 \<and> b2 \<le> 0xBF) \<or>
     (0xF1 \<le> b1 \<and> b1 \<le> 0xF3 \<and> utf8_cont b2) \<or>
     (b1 = 0xF4 \<and> 0x80 \<le> b2 \<and> b2 \<le> 0x8F)"

fun utf8_valid :: "bytes \<Rightarrow> bool" where
  "utf8_valid [] = True"
| "utf8_valid (b1 # bs) =
     (if b1 < 0x80 then utf8_valid bs
      else if 0xC2 \<le> b1 \<and> b1 \<le> 0xDF then
        (case bs of b2 # r \<Rightarrow> utf8_cont b2 \<and> utf8_valid r | _ \<Rightarrow> False)
      else if 0xE0 \<le> b1 \<and> b1 \<le> 0xEF then
        (case bs of b2 # b3 # r \<Rightarrow> utf8_second3 b1 b2 \<and> utf8_cont b3 \<and> utf8_valid r
         | _ \<Rightarrow> False)
      else if 0xF0 \<le> b1 \<and> b1 \<le> 0xF4 then
        (case bs of b2 # b3 # b4 # r \<Rightarrow>
           utf8_second4 b1 b2 \<and> utf8_cont b3 \<and> utf8_cont b4 \<and> utf8_valid r
         | _ \<Rightarrow> False)
      else False)"

definition from_utf8 :: "bytes \<Rightarrow> string option" where
  "from_utf8 bs = (if utf8_valid bs then Some (map char_of_byte bs) else None)"

text \<open>A value of type \<^verbatim>\<open>String\<close>: what \<^verbatim>\<open>String\<close>'s invariant promises.\<close>

definition is_rust_string :: "string \<Rightarrow> bool" where
  "is_rust_string s \<longleftrightarrow> utf8_valid (as_bytes s)"

lemma from_utf8_as_bytes [simp]: "is_rust_string s \<Longrightarrow> from_utf8 (as_bytes s) = Some s"
  by (simp add: from_utf8_def is_rust_string_def)

lemma from_utf8_Some:
  "from_utf8 bs = Some s \<longleftrightarrow> is_rust_string s \<and> bs = as_bytes s"
  by (auto simp: from_utf8_def is_rust_string_def split: if_splits)

lemma utf8_valid_ascii: "(\<forall>b \<in> set bs. b < 0x80) \<Longrightarrow> utf8_valid bs"
  by (induction bs) simp_all

lemma is_rust_string_ascii: "(\<forall>c \<in> set s. of_char c < (128 :: nat)) \<Longrightarrow> is_rust_string s"
  unfolding is_rust_string_def
  by (rule utf8_valid_ascii)
    (auto simp: as_bytes_def byte_of_char_def word_less_nat_alt unat_of_nat)

section \<open>Fallible computations on a state\<close>

text \<open>
  An \<^verbatim>\<open>async fn\<close> that returns a \<^verbatim>\<open>Result\<close> and changes some state: it yields an error
  or a value, and the state it leaves behind in either case. \<open>io_bind\<close> is the
  \<^verbatim>\<open>?\<close> operator: an error ends the computation with the state reached so far.
\<close>

type_synonym ('s, 'e, 'a) io = "'s \<Rightarrow> ('e + 'a) \<times> 's"

definition io_return :: "'a \<Rightarrow> ('s, 'e, 'a) io" where
  "io_return x s = (Inr x, s)"

definition io_fail :: "'e \<Rightarrow> ('s, 'e, 'a) io" where
  "io_fail e s = (Inl e, s)"

definition io_bind :: "('s, 'e, 'a) io \<Rightarrow> ('a \<Rightarrow> ('s, 'e, 'b) io) \<Rightarrow> ('s, 'e, 'b) io" where
  "io_bind m f s = (case m s of (Inl e, s') \<Rightarrow> (Inl e, s') | (Inr x, s') \<Rightarrow> f x s')"

definition io_lift :: "'e + 'a \<Rightarrow> ('s, 'e, 'a) io" where
  "io_lift r s = (r, s)"

definition io_modify :: "('s \<Rightarrow> 's) \<Rightarrow> ('s, 'e, unit) io" where
  "io_modify f s = (Inr (), f s)"

definition io_map_err :: "('e \<Rightarrow> 'f) \<Rightarrow> ('s, 'e, 'a) io \<Rightarrow> ('s, 'f, 'a) io" where
  "io_map_err f m s = (case m s of (r, s') \<Rightarrow> (map_err f r, s'))"

lemma io_return_apply [simp]: "io_return x s = (Inr x, s)"
  by (simp add: io_return_def)

lemma io_fail_apply [simp]: "io_fail e s = (Inl e, s)"
  by (simp add: io_fail_def)

lemma io_lift_apply [simp]: "io_lift r s = (r, s)"
  by (simp add: io_lift_def)

lemma io_modify_apply [simp]: "io_modify f s = (Inr (), f s)"
  by (simp add: io_modify_def)

lemma io_bind_Inr: "m s = (Inr x, s') \<Longrightarrow> io_bind m f s = f x s'"
  by (simp add: io_bind_def)

lemma io_bind_Inl: "m s = (Inl e, s') \<Longrightarrow> io_bind m f s = (Inl e, s')"
  by (simp add: io_bind_def)

lemma io_bind_return [simp]: "io_bind (io_return x) f = f x"
  by (rule ext) (simp add: io_bind_def)

lemma io_bind_lift [simp]: "io_bind (io_lift (Inr x)) f = f x" "io_bind (io_lift (Inl e)) f = io_fail e"
  by (rule ext, simp add: io_bind_def)+

lemma io_bind_fail [simp]: "io_bind (io_fail e) f = io_fail e"
  by (rule ext) (simp add: io_bind_def)

lemma io_map_err_simps [simp]:
  "io_map_err g (io_return x) = io_return x" "io_map_err g (io_fail e) = io_fail (g e)"
  "io_map_err g (io_lift r) = io_lift (map_err g r)"
  by (rule ext, simp add: io_map_err_def)+

lemma io_map_err_bind:
  "io_map_err g (io_bind m f) = io_bind (io_map_err g m) (\<lambda>x. io_map_err g (f x))"
  by (rule ext) (simp add: io_map_err_def io_bind_def split: prod.split sum.split)

lemma io_map_err_comp: "io_map_err g (io_map_err h m) = io_map_err (g \<circ> h) m"
  by (rule ext) (auto simp: io_map_err_def map_err_def split: prod.split sum.split)

lemma io_map_err_if:
  "io_map_err g (if b then m else m') = (if b then io_map_err g m else io_map_err g m')"
  by simp

lemma io_map_err_eq_Inr [simp]: "io_map_err g m s = (Inr x, t) \<longleftrightarrow> m s = (Inr x, t)"
  by (auto simp: io_map_err_def split: prod.split)

lemma snd_io_map_err [simp]: "snd (io_map_err g m s) = snd (m s)"
  by (simp add: io_map_err_def split: prod.split)

lemma io_bind_modify: "io_bind (io_modify g) f s = f () (g s)"
  by (simp add: io_bind_def)

lemma io_bind_assoc: "io_bind (io_bind m f) g = io_bind m (\<lambda>x. io_bind (f x) g)"
  by (rule ext) (simp add: io_bind_def split: prod.split sum.split)

lemma io_bind_eq_Inr:
  "io_bind m f s = (Inr y, t) \<longleftrightarrow> (\<exists>x s'. m s = (Inr x, s') \<and> f x s' = (Inr y, t))"
  by (auto simp: io_bind_def split: prod.split sum.split)

lemma io_bind_eq_Inl:
  "io_bind m f s = (Inl e, t) \<longleftrightarrow>
     m s = (Inl e, t) \<or> (\<exists>x s'. m s = (Inr x, s') \<and> f x s' = (Inl e, t))"
  by (auto simp: io_bind_def split: prod.split sum.split)

lemma io_bind_cases:
  assumes "io_bind m f s = r"
  obtains (Err) e s' where "m s = (Inl e, s')" "r = (Inl e, s')"
    | (Ok) x s' where "m s = (Inr x, s')" "f x s' = r"
  using assms by (auto simp: io_bind_def split: prod.splits sum.splits)

text \<open>\<^verbatim>\<open>collect::<Result<Vec<_>, _>>\<close>: the first error, or all the values.\<close>

primrec collect_ok :: "('e + 'a) list \<Rightarrow> 'e + 'a list" where
  "collect_ok [] = Inr []"
| "collect_ok (r # rs) = and_then r (\<lambda>x. and_then (collect_ok rs) (\<lambda>xs. Inr (x # xs)))"

lemma collect_ok_Inr: "collect_ok rs = Inr xs \<longleftrightarrow> rs = map Inr xs"
  by (induction rs arbitrary: xs) (auto simp: and_then_eq_Inr)

end
