(* ===== verification/Rust_Float.thy ===== *)
theory Rust_Float
  imports Complex_Main "HOL-Library.Log_Nat" Proxy_Prelude
begin

text \<open>
  Rust's \<^verbatim>\<open>f64\<close>: a finite double is the rational number it denotes, and every
  arithmetic operation is the exact rational operation followed by rounding to a 53-bit
  significand, ties to even, with gradual underflow at \<open>2 powi -1074\<close> (\<open>rnd\<close>).
  Infinities and NaN have no value here: where the sources can produce one (a division
  by zero), the model of that operation says so explicitly. Overflow past
  \<open>2 powi 1024\<close> is out of the range of every computation modelled (the bounds on
  scores and token counts are proved).
\<close>

declare of_nat_unat [simp del]

section \<open>Rounding\<close>

definition round_even :: "rat \<Rightarrow> int" where
  "round_even x =
     (let f = \<lfloor>x\<rfloor>; d = x - of_int f in
      if d < 1 / 2 then f else if d > 1 / 2 then f + 1 else if even f then f else f + 1)"

text \<open>The binary exponent of a positive rational: \<open>2 powi ilog2 x \<le> x < 2 powi (ilog2 x + 1)\<close>.\<close>

definition ilog2 :: "rat \<Rightarrow> int" where
  "ilog2 x =
     (let (a, b) = quotient_of x; e = bitlen a - bitlen b in
      if 2 powi e \<le> x then e else e - 1)"

definition quantum_exp :: "rat \<Rightarrow> int" where
  "quantum_exp x = max (ilog2 x - 52) (-1074)"

definition rnd_pos :: "rat \<Rightarrow> rat" where
  "rnd_pos x = (let q = 2 powi quantum_exp x in of_int (round_even (x / q)) * q)"

definition rnd :: "rat \<Rightarrow> rat" where
  "rnd x = (if x = 0 then 0 else if x < 0 then - rnd_pos (- x) else rnd_pos x)"

subsection \<open>Rounding to an integer\<close>

lemma round_even_bounds: "\<lfloor>x\<rfloor> \<le> round_even x" "round_even x \<le> \<lfloor>x\<rfloor> + 1"
  by (simp_all add: round_even_def Let_def)

lemma round_even_of_int [simp]: "round_even (of_int n) = n"
  by (simp add: round_even_def)

lemma round_even_mono:
  assumes "x \<le> y"
  shows "round_even x \<le> round_even y"
proof (cases "\<lfloor>x\<rfloor> = \<lfloor>y\<rfloor>")
  case True
  then show ?thesis using assms by (auto simp: round_even_def Let_def)
next
  case False
  then have "\<lfloor>x\<rfloor> + 1 \<le> \<lfloor>y\<rfloor>" using floor_mono [OF assms] by linarith
  then show ?thesis using round_even_bounds(2) [of x] round_even_bounds(1) [of y] by linarith
qed

lemma round_even_le_of_int: "x \<le> of_int n \<Longrightarrow> round_even x \<le> n"
  using round_even_mono [of x "of_int n"] by simp

lemma round_even_ge_of_int: "of_int n \<le> x \<Longrightarrow> n \<le> round_even x"
  using round_even_mono [of "of_int n" x] by simp

subsection \<open>The exponent\<close>

lemma powi_le_iff [simp]: "(2 :: rat) powi i \<le> 2 powi j \<longleftrightarrow> i \<le> j"
  by (meson linorder_not_le one_less_numeral_iff power_int_strict_increasing power_int_increasing semiring_norm(76) one_le_numeral)

lemma powi_less_iff: "(2 :: rat) powi i < 2 powi j \<longleftrightarrow> i < j"
  by (simp add: not_le [symmetric])

lemma powi_pos [simp]: "0 < (2 :: rat) powi i"
  by simp

lemma powi_nat: "0 \<le> i \<Longrightarrow> (2 :: rat) powi i = 2 ^ nat i"
  by (simp add: power_int_def)

lemma powi_not_neg [simp]: "\<not> (2 :: rat) powi i < 0"
  using powi_pos [of i] by linarith

lemma bitlen_powi:
  assumes "0 < a"
  shows "(2 :: rat) powi (bitlen a - 1) \<le> of_int a" "of_int a < (2 :: rat) powi bitlen a"
proof -
  have b: "0 < bitlen a" using assms bitlen_eq_zero_iff [of a] bitlen_nonneg [of a] by linarith
  have "2 ^ nat (bitlen a - 1) \<le> a" "a < 2 ^ nat (bitlen a)" using bitlen_bounds [OF assms] by auto
  then have "(of_int (2 ^ nat (bitlen a - 1)) :: rat) \<le> of_int a"
    "(of_int a :: rat) < of_int (2 ^ nat (bitlen a))" by (simp_all only: of_int_le_iff of_int_less_iff)
  then show "(2 :: rat) powi (bitlen a - 1) \<le> of_int a" "of_int a < (2 :: rat) powi bitlen a"
    using b by (simp_all add: powi_nat)
qed

lemma powi_add: "(2 :: rat) powi i * 2 powi j = 2 powi (i + j)"
  by (simp add: power_int_add)

lemma ilog2_bounds:
  assumes "0 < x"
  shows "2 powi ilog2 x \<le> x" "x < 2 powi (ilog2 x + 1)"
proof -
  obtain a b where ab: "quotient_of x = (a, b)" by force
  have b: "0 < b" using quotient_of_denom_pos [OF ab] .
  have x: "x = of_int a / of_int b" using quotient_of_div [OF ab] .
  have a: "0 < a" using assms b by (simp add: x zero_less_divide_iff)
  define e where "e = bitlen a - bitlen b"
  have "2 powi (e - 1) * of_int b < 2 powi (e - 1) * (2 :: rat) powi bitlen b"
    using bitlen_powi(2) [OF b] by simp
  also have "\<dots> \<le> of_int a" using bitlen_powi(1) [OF a] by (simp add: powi_add e_def)
  finally have lo: "2 powi (e - 1) < x" using b by (simp add: x pos_less_divide_eq)
  have "of_int a < 2 powi (e + 1) * (2 :: rat) powi (bitlen b - 1)"
    using bitlen_powi(2) [OF a] by (simp add: powi_add e_def)
  also have "\<dots> \<le> 2 powi (e + 1) * of_int b" using bitlen_powi(1) [OF b] by simp
  finally have hi: "x < 2 powi (e + 1)" using b by (simp add: x pos_divide_less_eq)
  show "2 powi ilog2 x \<le> x" "x < 2 powi (ilog2 x + 1)"
    using lo hi by (auto simp: ilog2_def ab e_def [symmetric])
qed

lemma ilog2_unique:
  assumes "2 powi i \<le> x" "x < 2 powi (i + 1)"
  shows "ilog2 x = i"
proof -
  have "0 < x" using assms(1) powi_pos [of i] by linarith
  note b = ilog2_bounds [OF this]
  have "(2 :: rat) powi i < 2 powi (ilog2 x + 1)" "(2 :: rat) powi ilog2 x < 2 powi (i + 1)"
    using assms b by linarith+
  then have "i < ilog2 x + 1" "ilog2 x < i + 1"
    by (simp_all add: not_le [symmetric])
  then show ?thesis by simp
qed

lemma ilog2_mono:
  assumes "0 < x" "x \<le> y"
  shows "ilog2 x \<le> ilog2 y"
proof -
  have "2 powi ilog2 x < (2 :: rat) powi (ilog2 y + 1)"
    using ilog2_bounds(1) [OF assms(1)] ilog2_bounds(2) [of y] assms by linarith
  then show ?thesis by (simp add: not_le [symmetric])
qed

subsection \<open>Rounding is monotone and exact on its grid\<close>

lemma quantum_exp_mono: "0 < x \<Longrightarrow> x \<le> y \<Longrightarrow> quantum_exp x \<le> quantum_exp y"
  using ilog2_mono by (fastforce simp: quantum_exp_def)

lemma grid_quotient:
  assumes "k \<le> e"
  obtains n where "(2 :: rat) powi e / 2 powi k = of_int n"
proof
  show "(2 :: rat) powi e / 2 powi k = of_int (2 ^ nat (e - k))"
    using assms by (simp add: power_int_diff [symmetric] powi_nat)
qed

lemma rnd_pos_le_powi:
  assumes "0 < x" "x \<le> 2 powi e" "quantum_exp x \<le> e"
  shows "rnd_pos x \<le> 2 powi e"
proof -
  let ?q = "(2 :: rat) powi quantum_exp x"
  obtain n where n: "2 powi e / ?q = of_int n" using grid_quotient [OF assms(3)] .
  have "x / ?q \<le> of_int n" using assms(2) unfolding n [symmetric] by (simp add: divide_right_mono)
  then have "round_even (x / ?q) \<le> n" by (rule round_even_le_of_int)
  then have "of_int (round_even (x / ?q)) * ?q \<le> of_int n * ?q" by simp
  then show ?thesis unfolding n [symmetric] by (simp add: rnd_pos_def Let_def)
qed

lemma rnd_pos_ge_powi:
  assumes "0 < x" "2 powi e \<le> x" "quantum_exp x \<le> e"
  shows "2 powi e \<le> rnd_pos x"
proof -
  let ?q = "(2 :: rat) powi quantum_exp x"
  obtain n where n: "2 powi e / ?q = of_int n" using grid_quotient [OF assms(3)] .
  have "of_int n \<le> x / ?q" using assms(2) unfolding n [symmetric] by (simp add: divide_right_mono)
  then have "n \<le> round_even (x / ?q)" by (rule round_even_ge_of_int)
  then have "of_int n * ?q \<le> of_int (round_even (x / ?q)) * ?q" by simp
  then show ?thesis unfolding n [symmetric] by (simp add: rnd_pos_def Let_def)
qed

lemma rnd_pos_mono:
  assumes "0 < x" "x \<le> y"
  shows "rnd_pos x \<le> rnd_pos y"
proof (cases "quantum_exp x = quantum_exp y")
  case True
  then show ?thesis
    using assms by (simp add: rnd_pos_def Let_def round_even_mono divide_right_mono)
next
  case False
  then have less: "quantum_exp x < quantum_exp y" using quantum_exp_mono [OF assms] by simp
  let ?e = "ilog2 y"
  have qy: "quantum_exp y \<le> ?e" and xe: "ilog2 x + 1 \<le> ?e"
    using less by (auto simp: quantum_exp_def)
  have "x \<le> 2 powi ?e"
    using ilog2_bounds(2) [OF assms(1)] xe by (meson less_imp_le order.trans powi_le_iff)
  then have "rnd_pos x \<le> 2 powi ?e"
    using assms less qy by (intro rnd_pos_le_powi) simp_all
  also have "\<dots> \<le> rnd_pos y"
    using assms qy ilog2_bounds(1) [of y] by (intro rnd_pos_ge_powi) simp_all
  finally show ?thesis .
qed

lemma rnd_pos_nonneg: "0 < x \<Longrightarrow> 0 \<le> rnd_pos x"
  unfolding rnd_pos_def Let_def
  by (intro mult_nonneg_nonneg) (simp_all add: round_even_ge_of_int [of 0, simplified])

lemma rnd_0 [simp]: "rnd 0 = 0"
  by (simp add: rnd_def)

lemma rnd_mono:
  assumes "x \<le> y"
  shows "rnd x \<le> rnd y"
proof -
  consider "0 < x" | "x \<le> 0" "0 \<le> y" | "y < 0" by linarith
  then show ?thesis
  proof cases
    case 2
    have "rnd x \<le> 0" using 2(1) rnd_pos_nonneg [of "- x"] by (simp add: rnd_def)
    moreover have "0 \<le> rnd y" using 2(2) rnd_pos_nonneg [of y] by (simp add: rnd_def)
    ultimately show ?thesis by linarith
  qed (use assms rnd_pos_mono [of x y] rnd_pos_mono [of "- y" "- x"] in \<open>auto simp: rnd_def\<close>)
qed

lemma rnd_grid:
  assumes "\<bar>m\<bar> < 2 ^ 53" "-1074 \<le> k"
  shows "rnd (of_int m * 2 powi k) = of_int m * 2 powi k"
proof -
  have pos: "rnd_pos (of_int n * 2 powi k) = of_int n * 2 powi k" if n: "0 < n" "n < 2 ^ 53" for n
  proof -
    let ?x = "(of_int n :: rat) * 2 powi k"
    have x: "0 < ?x" using n by simp
    have "of_int n < (of_int (2 ^ 53) :: rat)" using n(2) by (simp only: of_int_less_iff)
    then have "?x < 2 powi 53 * 2 powi k" by (simp add: powi_nat)
    then have "2 powi ilog2 ?x < (2 :: rat) powi (53 + k)"
      using ilog2_bounds(1) [OF x] by (simp only: powi_add)
    then have q: "quantum_exp ?x \<le> k"
      using assms(2) by (simp add: quantum_exp_def not_le [symmetric])
    obtain c where c: "(2 :: rat) powi k / 2 powi quantum_exp ?x = of_int c" using grid_quotient [OF q] .
    have "?x / 2 powi quantum_exp ?x = of_int n * (2 powi k / 2 powi quantum_exp ?x)" by simp
    also have "\<dots> = of_int (n * c)" unfolding c by simp
    finally have "rnd_pos ?x = of_int (n * c) * 2 powi quantum_exp ?x"
      by (simp only: rnd_pos_def Let_def round_even_of_int)
    also have "\<dots> = of_int n * (of_int c * 2 powi quantum_exp ?x)" by simp
    also have "of_int c * (2 :: rat) powi quantum_exp ?x = 2 powi k" unfolding c [symmetric] by simp
    finally show ?thesis .
  qed
  show ?thesis
    using assms pos [of m] pos [of "- m"] by (cases m "0 :: int" rule: linorder_cases) (auto simp: rnd_def mult_less_0_iff)
qed

lemma rnd_of_int [simp]: "\<bar>m\<bar> < 2 ^ 53 \<Longrightarrow> rnd (of_int m) = of_int m"
  using rnd_grid [of m 0] by simp

lemma rnd_of_nat: "n < 2 ^ 53 \<Longrightarrow> rnd (of_nat n) = of_nat n"
  using rnd_of_int [of "int n"] by simp

lemma rnd_1 [simp]: "rnd 1 = 1"
  using rnd_of_int [of 1] by simp

lemma rnd_numeral: "numeral n < (2 ^ 53 :: int) \<Longrightarrow> rnd (numeral n) = numeral n"
  using rnd_of_int [of "numeral n"] by simp

lemma rnd_half: "rnd (1 / 2) = 1 / 2"
  using rnd_grid [of 1 "-1"] by (simp add: power_int_minus)

lemma rnd_nonneg: "0 \<le> x \<Longrightarrow> 0 \<le> rnd x"
  using rnd_mono [of 0 x] by simp

lemma rnd_le_1: "x \<le> 1 \<Longrightarrow> rnd x \<le> 1"
  using rnd_mono [of x 1] by simp

lemma rnd_ge_1: "1 \<le> x \<Longrightarrow> 1 \<le> rnd x"
  using rnd_mono [of 1 x] by simp

lemma rnd_pos_idem:
  assumes "0 < x"
  shows "rnd (rnd_pos x) = rnd_pos x"
proof -
  let ?k = "quantum_exp x" let ?q = "(2 :: rat) powi ?k" let ?m = "round_even (x / ?q)"
  have k: "ilog2 x - 52 \<le> ?k" "-1074 \<le> ?k" by (simp_all add: quantum_exp_def)
  have "x < 2 powi (ilog2 x + 1)" using ilog2_bounds(2) [OF assms] .
  also have "\<dots> \<le> 2 powi (53 + ?k)" using k(1) by (simp only: powi_le_iff)
  also have "\<dots> = 2 ^ 53 * ?q" by (simp add: power_int_add)
  finally have "x / ?q \<le> of_int (2 ^ 53)" by (simp add: divide_le_eq)
  then have "?m \<le> 2 ^ 53" by (rule round_even_le_of_int)
  moreover have "0 \<le> ?m" using assms by (intro round_even_ge_of_int) simp
  ultimately consider "\<bar>?m\<bar> < 2 ^ 53" | "?m = 2 ^ 53" by linarith
  then have "rnd (of_int ?m * ?q) = of_int ?m * ?q"
  proof cases
    case 1
    then show ?thesis using k(2) by (rule rnd_grid)
  next
    case 2
    then have "of_int ?m * ?q = of_int 1 * 2 powi (53 + ?k)" by (simp add: power_int_add)
    then show ?thesis using k(2) rnd_grid [of 1 "53 + ?k"] by simp
  qed
  then show ?thesis by (simp add: rnd_pos_def Let_def)
qed

lemma rnd_minus: "rnd (- x) = - rnd x"
  by (simp add: rnd_def)

lemma rnd_idem [simp]: "rnd (rnd x) = rnd x"
  using rnd_pos_idem [of x] rnd_pos_idem [of "- x"] rnd_minus [of "rnd_pos (- x)"]
  by (auto simp: rnd_def)

lemma rnd_double:
  assumes "2 powi -1022 \<le> x"
  shows "rnd (2 * x) = 2 * rnd x"
proof -
  have x: "0 < x" using assms powi_pos [of "-1022"] by linarith
  have two: "2 * (2 :: rat) powi i = 2 powi (i + 1)" for i by (simp add: power_int_add)
  have l: "ilog2 (2 * x) = ilog2 x + 1"
    using ilog2_bounds [OF x] two [of "ilog2 x"] two [of "ilog2 x + 1"] by (intro ilog2_unique) linarith+
  have "(2 :: rat) powi -1022 < 2 powi (ilog2 x + 1)" using assms ilog2_bounds(2) [OF x] by linarith
  then have "-1022 < ilog2 x + 1" by (simp only: powi_less_iff)
  then have q: "quantum_exp (2 * x) = quantum_exp x + 1" by (simp add: quantum_exp_def l)
  have "2 * x / 2 powi (quantum_exp x + 1) = x / 2 powi quantum_exp x"
    by (simp flip: two)
  then show ?thesis using x by (simp add: rnd_def rnd_pos_def q Let_def flip: two)
qed

lemma rnd_double_ge1:
  assumes "1 \<le> x"
  shows "rnd (2 * x) = 2 * rnd x"
proof -
  have "(2 :: rat) powi -1022 \<le> 2 powi 0" by (simp only: powi_le_iff)
  also have "2 powi 0 = (1 :: rat)" by simp
  also note assms
  finally show ?thesis by (rule rnd_double)
qed

section \<open>Operations\<close>

definition f64_of_u32 :: "u32 \<Rightarrow> rat" where
  "f64_of_u32 n = rnd (of_nat (unat n))"

definition f64_of_u64 :: "u64 \<Rightarrow> rat" where
  "f64_of_u64 n = rnd (of_nat (unat n))"

definition f64_add :: "rat \<Rightarrow> rat \<Rightarrow> rat" where "f64_add x y = rnd (x + y)"
definition f64_sub :: "rat \<Rightarrow> rat \<Rightarrow> rat" where "f64_sub x y = rnd (x - y)"
definition f64_mul :: "rat \<Rightarrow> rat \<Rightarrow> rat" where "f64_mul x y = rnd (x * y)"
definition f64_div :: "rat \<Rightarrow> rat \<Rightarrow> rat" where "f64_div x y = rnd (x / y)"

definition f64_clamp :: "rat \<Rightarrow> rat \<Rightarrow> rat \<Rightarrow> rat" where
  "f64_clamp lo hi x = (if x < lo then lo else if hi < x then hi else x)"

lemmas f64_defs = f64_add_def f64_sub_def f64_mul_def f64_div_def

lemma f64_of_u32_eq [simp]: "f64_of_u32 n = of_nat (unat n)"
proof -
  have "unat n < 2 ^ 32" using unsigned_less [of n, where 'a = nat] by simp
  then show ?thesis unfolding f64_of_u32_def by (intro rnd_of_nat) simp
qed

lemma f64_mul_mono:
  "0 \<le> x \<Longrightarrow> x \<le> x' \<Longrightarrow> 0 \<le> y \<Longrightarrow> y \<le> y' \<Longrightarrow> f64_mul x y \<le> f64_mul x' y'"
  unfolding f64_mul_def by (intro rnd_mono mult_mono) simp_all

lemma f64_add_mono: "x \<le> x' \<Longrightarrow> y \<le> y' \<Longrightarrow> f64_add x y \<le> f64_add x' y'"
  unfolding f64_add_def by (intro rnd_mono add_mono)

lemma f64_sub_mono: "x \<le> x' \<Longrightarrow> y' \<le> y \<Longrightarrow> f64_sub x y \<le> f64_sub x' y'"
  unfolding f64_sub_def by (intro rnd_mono diff_mono)

lemma f64_div_mono: "0 \<le> y \<Longrightarrow> x \<le> x' \<Longrightarrow> f64_div x y \<le> f64_div x' y"
  unfolding f64_div_def by (intro rnd_mono divide_right_mono)

end
