(* ===== verification/CP_Model.thy ===== *)
theory CP_Model
  imports Rust_Float
begin

text \<open>
  The control plane's domain model, from \<^verbatim>\<open>model.rs\<close>, and the classification of a
  node's health, from \<^verbatim>\<open>health.rs\<close>. An instant (\<^verbatim>\<open>DateTime<Utc>\<close>) is a number of
  nanoseconds since the epoch, a \<^verbatim>\<open>Duration\<close> a non-negative number of nanoseconds.
\<close>

type_synonym DateTime = int

section \<open>Nodes\<close>

datatype NodeState = Starting | Healthy | Degraded | Draining | Offline

fun NodeState_as_str :: "NodeState \<Rightarrow> string" where
  "NodeState_as_str Starting = ''starting''"
| "NodeState_as_str Healthy = ''healthy''"
| "NodeState_as_str Degraded = ''degraded''"
| "NodeState_as_str Draining = ''draining''"
| "NodeState_as_str Offline = ''offline''"

definition NodeState_parse :: "string \<Rightarrow> NodeState option" where
  "NodeState_parse s =
     (if s = ''starting'' then Some Starting
      else if s = ''healthy'' then Some Healthy
      else if s = ''degraded'' then Some Degraded
      else if s = ''draining'' then Some Draining
      else if s = ''offline'' then Some Offline
      else None)"

record Node =
  nd_id :: string
  nd_address :: string
  nd_state :: NodeState
  nd_last_heartbeat :: "DateTime option"
  nd_max_connections :: u32
  nd_active_connections :: u32
  nd_bandwidth_limit :: u64
  nd_bytes_up :: u64
  nd_bytes_down :: u64
  nd_latency_ms :: u32
  nd_created_at :: DateTime
  nd_updated_at :: DateTime

definition is_selectable :: "Node \<Rightarrow> bool" where
  "is_selectable n \<longleftrightarrow> nd_state n \<in> {Healthy, Degraded}"

definition available_capacity :: "Node \<Rightarrow> u32" where
  "available_capacity n = saturating_sub (nd_max_connections n) (nd_active_connections n)"

definition bandwidth_utilization :: "Node \<Rightarrow> rat" where
  "bandwidth_utilization n =
     (if nd_max_connections n = 0 then 1
      else let ratio = f64_div (f64_of_u32 (nd_active_connections n)) (f64_of_u32 (nd_max_connections n))
        in f64_clamp 0 1 ratio)"

text \<open>A node with a capacity of ten, for the concrete instances of the properties.\<close>

definition sample_node :: "string \<Rightarrow> NodeState \<Rightarrow> u32 \<Rightarrow> u32 \<Rightarrow> Node" where
  "sample_node i s active latency =
     \<lparr>nd_id = i, nd_address = ''10.0.0.1:1080'', nd_state = s, nd_last_heartbeat = None,
      nd_max_connections = 10, nd_active_connections = active, nd_bandwidth_limit = 1000,
      nd_bytes_up = 0, nd_bytes_down = 0, nd_latency_ms = latency, nd_created_at = 0, nd_updated_at = 0\<rparr>"

lemma NodeState_parse_as_str [simp]: "NodeState_parse (NodeState_as_str s) = Some s"
  by (cases s) (simp_all add: NodeState_parse_def)

lemma NodeState_parse_Some: "NodeState_parse t = Some s \<longleftrightarrow> t = NodeState_as_str s"
  by (cases s) (auto simp: NodeState_parse_def)

lemma NodeState_as_str_inject [simp]: "NodeState_as_str s = NodeState_as_str t \<longleftrightarrow> s = t"
  by (metis NodeState_parse_as_str option.inject)

lemma f64_clamp_bounds: "lo \<le> hi \<Longrightarrow> lo \<le> f64_clamp lo hi x \<and> f64_clamp lo hi x \<le> hi"
  by (auto simp: f64_clamp_def)

lemma f64_clamp_mono: "lo \<le> hi \<Longrightarrow> x \<le> y \<Longrightarrow> f64_clamp lo hi x \<le> f64_clamp lo hi y"
  by (auto simp: f64_clamp_def)

lemma bandwidth_utilization_bounds: "0 \<le> bandwidth_utilization n" "bandwidth_utilization n \<le> 1"
  using f64_clamp_bounds [of 0 1] by (auto simp: bandwidth_utilization_def Let_def)

lemma bandwidth_utilization_mono:
  assumes "nd_max_connections m = nd_max_connections n"
    and "nd_active_connections m \<le> nd_active_connections n"
  shows "bandwidth_utilization m \<le> bandwidth_utilization n"
  using assms
  by (auto simp: bandwidth_utilization_def Let_def word_le_nat_alt
      intro!: f64_clamp_mono f64_div_mono)

section \<open>Health\<close>

record HealthPolicy =
  hp_offline_timeout :: Duration
  hp_degraded_threshold :: rat

definition HealthPolicy_default :: HealthPolicy where
  "HealthPolicy_default = \<lparr>hp_offline_timeout = from_secs 30, hp_degraded_threshold = rnd (9 / 10)\<rparr>"

definition reclassify_after_heartbeat :: "NodeState \<Rightarrow> u32 \<Rightarrow> u32 \<Rightarrow> HealthPolicy \<Rightarrow> NodeState" where
  "reclassify_after_heartbeat current active_connections max_connections policy =
     (if current = Draining \<or> current = Offline then current
      else
        let utilization = (if max_connections = 0 then 1
              else f64_div (f64_of_u32 active_connections) (f64_of_u32 max_connections))
        in if utilization \<ge> hp_degraded_threshold policy then Degraded else Healthy)"

definition duration_to_std :: "int \<Rightarrow> Duration option" where
  "duration_to_std d = (if d < 0 then None else Some (nat d))"

definition is_stale :: "DateTime option \<Rightarrow> DateTime \<Rightarrow> HealthPolicy \<Rightarrow> bool" where
  "is_stale last_heartbeat now policy = (case last_heartbeat of
     None \<Rightarrow> False
   | Some ts \<Rightarrow>
       let elapsed = (case duration_to_std (now - ts) of None \<Rightarrow> 0 | Some d \<Rightarrow> d)
       in elapsed \<ge> hp_offline_timeout policy)"

definition drained_complete_state :: NodeState where
  "drained_complete_state = Offline"

subsection \<open>The threshold test on machine numbers is exact\<close>

lemma round_even_error: "\<bar>of_int (round_even x) - x\<bar> \<le> 1 / 2"
proof -
  have "of_int \<lfloor>x\<rfloor> \<le> x" "x < of_int \<lfloor>x\<rfloor> + 1" by linarith+
  then show ?thesis by (auto simp: round_even_def Let_def abs_le_iff)
qed

lemma rnd_pos_error:
  assumes "0 < x"
  shows "\<bar>rnd_pos x - x\<bar> \<le> 2 powi (quantum_exp x - 1)"
proof -
  let ?q = "(2 :: rat) powi quantum_exp x"
  have "rnd_pos x - x = (of_int (round_even (x / ?q)) - x / ?q) * ?q"
    by (simp add: rnd_pos_def Let_def algebra_simps)
  then have "\<bar>rnd_pos x - x\<bar> = \<bar>of_int (round_even (x / ?q)) - x / ?q\<bar> * ?q"
    by (simp add: abs_mult)
  also have "\<dots> \<le> 1 / 2 * ?q"
    using round_even_error by (intro mult_right_mono) simp_all
  also have "\<dots> = 2 powi (quantum_exp x - 1)"
    by (simp add: power_int_diff)
  finally show ?thesis .
qed

lemma rnd_error_below_1:
  assumes "0 \<le> x" "x < 1"
  shows "\<bar>rnd x - x\<bar> \<le> 2 powi -54"
proof (cases "x = 0")
  case False
  then have x: "0 < x" using assms(1) by simp
  have "2 powi ilog2 x < (2 :: rat) powi 0" using ilog2_bounds(1) [OF x] assms(2) by simp
  then have "ilog2 x < 0" by (simp only: powi_less_iff)
  then have "quantum_exp x - 1 \<le> -54" by (simp add: quantum_exp_def)
  then have "(2 :: rat) powi (quantum_exp x - 1) \<le> 2 powi -54" by (simp only: powi_le_iff)
  then show ?thesis
    using rnd_pos_error [OF x] x unfolding rnd_def by simp
qed simp

lemma degraded_threshold_exact:
  fixes a m :: u32
  assumes "m \<noteq> 0"
  shows "rnd (9 / 10) \<le> f64_div (f64_of_u32 a) (f64_of_u32 m) \<longleftrightarrow> 9 * unat m \<le> 10 * unat a"
proof
  let ?x = "(of_nat (unat a) :: rat) / of_nat (unat m)"
  have m: "0 < unat m" using assms by (simp add: unat_gt_0)
  {
    assume "9 * unat m \<le> 10 * unat a"
    then have "9 * of_nat (unat m) \<le> 10 * (of_nat (unat a) :: rat)"
      by (metis of_nat_le_iff of_nat_mult of_nat_numeral)
    then have "9 / 10 \<le> ?x" using m by (simp add: field_simps)
    then show "rnd (9 / 10) \<le> f64_div (f64_of_u32 a) (f64_of_u32 m)"
      unfolding f64_div_def f64_of_u32_eq by (rule rnd_mono)
  next
    assume le: "rnd (9 / 10) \<le> f64_div (f64_of_u32 a) (f64_of_u32 m)"
    show "9 * unat m \<le> 10 * unat a"
    proof (rule ccontr)
      assume "\<not> 9 * unat m \<le> 10 * unat a"
      then have "10 * unat a + 1 \<le> 9 * unat m" by simp
      then have "10 * (of_nat (unat a) :: rat) + 1 \<le> 9 * of_nat (unat m)"
        by (metis (mono_tags, opaque_lifting) of_nat_1 of_nat_add of_nat_le_iff of_nat_mult of_nat_numeral)
      then have gap: "?x \<le> 9 / 10 - 1 / (10 * of_nat (unat m))" using m by (simp add: field_simps)
      have "unat m < 2 ^ 32" using unsigned_less [of m, where 'a = nat] by simp
      then have "(of_nat (unat m) :: rat) < 2 ^ 32" by (metis of_nat_less_iff of_nat_numeral of_nat_power)
      then have big: "1 / (10 * 2 ^ 32) < 1 / (10 * (of_nat (unat m) :: rat))"
        using m by (intro divide_strict_left_mono) simp_all
      have "0 \<le> ?x" by simp
      moreover have "?x < 1" using gap big by simp
      ultimately have "rnd ?x \<le> ?x + 2 powi -54" using rnd_error_below_1 [of ?x] by linarith
      also have "\<dots> < 9 / 10 - 2 powi -54"
      proof -
        have "(2 :: rat) powi -54 = 1 / 2 ^ 54" by (simp add: power_int_minus)
        moreover have "?x < 9 / 10 - 1 / (10 * 2 ^ 32)" using gap big by linarith
        moreover have "2 * (1 / 2 ^ 54) < (1 / (10 * 2 ^ 32) :: rat)" by simp
        ultimately show ?thesis by linarith
      qed
      also have "\<dots> \<le> rnd (9 / 10)" using rnd_error_below_1 [of "9 / 10"] by linarith
      finally show False using le by (simp add: f64_div_def)
    qed
  }
qed

section \<open>Properties\<close>

text \<open>
  C18. With the default policy a heartbeat reclassifies a node exactly: a draining or offline node
  keeps its state; any other becomes Degraded precisely when it has no capacity or at least nine tenths of it
  are in use, computed over the integers, and Healthy otherwise. The rounding of the
  double-precision quotient and of the constant 0.9 never changes the answer.
\<close>

theorem reclassify_exact:
  "reclassify_after_heartbeat s active cap HealthPolicy_default =
    (if s = Draining \<or> s = Offline then s
     else if cap = 0 \<or> 9 * unat cap \<le> 10 * unat active then Degraded else Healthy)"
  using degraded_threshold_exact [of cap active]
  by (auto simp: reclassify_after_heartbeat_def HealthPolicy_default_def Let_def rnd_le_1)

text \<open>
  A node is stale exactly when it has sent a heartbeat and at least the timeout has passed
  since; a clock that steps back never makes a node stale under a positive timeout.
\<close>

theorem is_stale_exact:
  "is_stale hb now p \<longleftrightarrow>
     (\<exists>ts. hb = Some ts \<and> (hp_offline_timeout p = 0 \<or> int (hp_offline_timeout p) \<le> now - ts))"
  by (auto simp: is_stale_def duration_to_std_def split: option.split)

end
