(* ===== verification/CP_Registry.thy ===== *)
theory CP_Registry
  imports CP_Model "HOL-Library.List_Lexorder" "HOL-Library.Char_ord"
begin

text \<open>
  The node registry, from \<^verbatim>\<open>registry.rs\<close>. The \<^verbatim>\<open>nodes\<close> table is a list of rows, and
  each SQL statement of the source is a function on that list. Integer columns hold a
  64-bit value; the two statements that add in SQL may leave a REAL behind on overflow.
  What the program does not control is an environment: whether the \<open>i\<close>th statement
  fails, the \<open>i\<close>th reading of the clock, and which timestamps chrono can represent.
  The \<^verbatim>\<open>NodeRepository\<close> trait is a record of functions (its vtable) and its contract the
  locale \<open>node_repository\<close>, over the registry as a finite map from ids to nodes.
\<close>

section \<open>Requests\<close>

record Heartbeat =
  hb_node_id :: string
  hb_active_connections :: u32
  hb_bytes_up :: u64
  hb_bytes_down :: u64
  hb_latency_ms :: u32
  hb_available_bandwidth :: u64

record RegisterRequest =
  rr_node_id :: string
  rr_address :: string
  rr_max_connections :: u32
  rr_bandwidth_limit :: u64

section \<open>Rows and SQL values\<close>

type_synonym i64 = "64 word"

datatype SqlValue = SqlInt i64 | SqlReal rat

record row =
  row_id :: string
  row_address :: string
  row_status :: string
  row_last_heartbeat :: "i64 option"
  row_max_connections :: i64
  row_active_connections :: SqlValue
  row_bandwidth_limit :: i64
  row_bytes_up :: SqlValue
  row_bytes_down :: SqlValue
  row_latency_ms :: i64
  row_created_at :: i64
  row_updated_at :: i64

definition in_i64 :: "int \<Rightarrow> bool" where
  "in_i64 x \<longleftrightarrow> - (2 ^ 63) \<le> x \<and> x < 2 ^ 63"

fun sql_real :: "SqlValue \<Rightarrow> rat" where
  "sql_real (SqlInt i) = rnd (of_int (sint i))"
| "sql_real (SqlReal r) = r"

text \<open>SQL addition: exact on integers, in floating point once the sum leaves 64 bits.\<close>

fun sql_add :: "SqlValue \<Rightarrow> SqlValue \<Rightarrow> SqlValue" where
  "sql_add (SqlInt a) (SqlInt b) =
     (if in_i64 (sint a + sint b) then SqlInt (a + b)
      else SqlReal (f64_add (sql_real (SqlInt a)) (sql_real (SqlInt b))))"
| "sql_add a b = SqlReal (f64_add (sql_real a) (sql_real b))"

definition sql_max0 :: "SqlValue \<Rightarrow> SqlValue" where
  "sql_max0 v = (case v of SqlInt i \<Rightarrow> if sint i < 0 then SqlInt 0 else v
                         | SqlReal r \<Rightarrow> if r < 0 then SqlInt 0 else v)"

text \<open>A REAL that is a 64-bit integer is stored as one (the column has INTEGER affinity).\<close>

definition sql_store :: "SqlValue \<Rightarrow> SqlValue" where
  "sql_store v = (case v of SqlInt i \<Rightarrow> v
     | SqlReal r \<Rightarrow> if r = of_int \<lfloor>r\<rfloor> \<and> - (2 ^ 63) < \<lfloor>r\<rfloor> \<and> \<lfloor>r\<rfloor> < 2 ^ 63 - 1
                   then SqlInt (word_of_int \<lfloor>r\<rfloor>) else v)"

section \<open>The repository\<close>

record CpEnv =
  ce_fault :: "nat \<Rightarrow> bool"
  ce_clock :: "nat \<Rightarrow> DateTime"
  ce_ts_valid :: "int \<Rightarrow> bool"

record Db =
  db_nodes :: "row list"
  db_stmts :: nat
  db_reads :: nat

datatype RepoError =
  SqlFault
| UnknownNodeState string
| InvalidEpoch int
| ColumnDecode string
| NodeDisappeared

definition from_timestamp :: "CpEnv \<Rightarrow> i64 \<Rightarrow> DateTime option" where
  "from_timestamp e unix = (if ce_ts_valid e (sint unix) then Some (sint unix * 10 ^ 9) else None)"

definition epoch :: "CpEnv \<Rightarrow> i64 \<Rightarrow> RepoError + DateTime" where
  "epoch e unix = ok_or (InvalidEpoch (sint unix)) (from_timestamp e unix)"

definition opt_epoch :: "CpEnv \<Rightarrow> i64 option \<Rightarrow> DateTime option" where
  "opt_epoch e unix = Option.bind unix (from_timestamp e)"

definition utc_now :: "CpEnv \<Rightarrow> Db \<Rightarrow> DateTime \<times> Db" where
  "utc_now e db = (ce_clock e (db_reads db), db\<lparr>db_reads := Suc (db_reads db)\<rparr>)"

definition now_epoch :: "CpEnv \<Rightarrow> Db \<Rightarrow> i64 \<times> Db" where
  "now_epoch e db = (let (t, db) = utc_now e db in (word_of_int (t div 10 ^ 9), db))"

definition try_get_i64 :: "string \<Rightarrow> SqlValue \<Rightarrow> RepoError + i64" where
  "try_get_i64 col v = (case v of SqlInt i \<Rightarrow> Inr i | SqlReal r \<Rightarrow> Inl (ColumnDecode col))"

definition row_into_node :: "CpEnv \<Rightarrow> row \<Rightarrow> RepoError + Node" where
  "row_into_node e r =
     and_then (ok_or (UnknownNodeState (row_status r)) (NodeState_parse (row_status r))) (\<lambda>state.
     and_then (try_get_i64 ''active_connections'' (row_active_connections r)) (\<lambda>active.
     and_then (try_get_i64 ''bytes_up'' (row_bytes_up r)) (\<lambda>bytes_up.
     and_then (try_get_i64 ''bytes_down'' (row_bytes_down r)) (\<lambda>bytes_down.
     and_then (epoch e (row_created_at r)) (\<lambda>created_at.
     and_then (epoch e (row_updated_at r)) (\<lambda>updated_at.
       Inr \<lparr>nd_id = row_id r, nd_address = row_address r, nd_state = state,
            nd_last_heartbeat = opt_epoch e (row_last_heartbeat r),
            nd_max_connections = ucast (row_max_connections r),
            nd_active_connections = ucast active,
            nd_bandwidth_limit = row_bandwidth_limit r,
            nd_bytes_up = bytes_up, nd_bytes_down = bytes_down,
            nd_latency_ms = ucast (row_latency_ms r),
            nd_created_at = created_at, nd_updated_at = updated_at\<rparr>))))))"

text \<open>One statement on the pool: it fails and leaves the table alone, or takes effect.\<close>

definition db_execute :: "CpEnv \<Rightarrow> (row list \<Rightarrow> row list) \<Rightarrow> (Db, RepoError, unit) io" where
  "db_execute e upd db =
     (let i = db_stmts db; db = db\<lparr>db_stmts := Suc i\<rparr> in
      if ce_fault e i then (Inl SqlFault, db) else (Inr (), db\<lparr>db_nodes := upd (db_nodes db)\<rparr>))"

definition db_fetch :: "CpEnv \<Rightarrow> (row list \<Rightarrow> 'a) \<Rightarrow> (Db, RepoError, 'a) io" where
  "db_fetch e query db =
     (let i = db_stmts db; db = db\<lparr>db_stmts := Suc i\<rparr> in
      if ce_fault e i then (Inl SqlFault, db) else (Inr (query (db_nodes db)), db))"

definition update_where :: "string \<Rightarrow> (row \<Rightarrow> row) \<Rightarrow> row list \<Rightarrow> row list" where
  "update_where i f rows = map (\<lambda>r. if row_id r = i then f r else r) rows"

text \<open>The \<^verbatim>\<open>ON CONFLICT(id) DO UPDATE SET\<close> clause of the registration statement.\<close>

definition conflict_update :: "RegisterRequest \<Rightarrow> i64 \<Rightarrow> row \<Rightarrow> row" where
  "conflict_update req now r = r\<lparr>
     row_address := rr_address req,
     row_max_connections := ucast (rr_max_connections req),
     row_bandwidth_limit := rr_bandwidth_limit req,
     row_status := (if row_status r \<in> {''offline'', ''starting''} then ''starting'' else row_status r),
     row_updated_at := now\<rparr>"

definition upsert_node :: "RegisterRequest \<Rightarrow> i64 \<Rightarrow> row list \<Rightarrow> row list" where
  "upsert_node req now rows =
     (if rr_node_id req \<in> set (map row_id rows)
      then update_where (rr_node_id req) (conflict_update req now) rows
      else rows @ [\<lparr>row_id = rr_node_id req, row_address = rr_address req, row_status = ''starting'',
             row_last_heartbeat = None, row_max_connections = ucast (rr_max_connections req),
             row_active_connections = SqlInt 0, row_bandwidth_limit = rr_bandwidth_limit req,
             row_bytes_up = SqlInt 0, row_bytes_down = SqlInt 0, row_latency_ms = 0,
             row_created_at = now, row_updated_at = now\<rparr>])"

text \<open>A statement whose parameters include the current time.\<close>

definition execute_now :: "CpEnv \<Rightarrow> (i64 \<Rightarrow> row list \<Rightarrow> row list) \<Rightarrow> (Db, RepoError, unit) io" where
  "execute_now e upd db = (let (now, db) = now_epoch e db in db_execute e (upd now) db)"

definition Sqlite_register :: "CpEnv \<Rightarrow> RegisterRequest \<Rightarrow> (Db, RepoError, unit) io" where
  "Sqlite_register e req = execute_now e (upsert_node req)"

definition Sqlite_get :: "CpEnv \<Rightarrow> string \<Rightarrow> (Db, RepoError, Node option) io" where
  "Sqlite_get e i =
     io_bind (db_fetch e (find (\<lambda>r. row_id r = i))) (\<lambda>row.
       io_lift (case row of None \<Rightarrow> Inr None | Some r \<Rightarrow> map_ok Some (row_into_node e r)))"

definition Sqlite_list :: "CpEnv \<Rightarrow> (Db, RepoError, Node list) io" where
  "Sqlite_list e =
     io_bind (db_fetch e (sort_key row_id)) (\<lambda>rows. io_lift (collect_ok (map (row_into_node e) rows)))"

definition Sqlite_apply_heartbeat :: "CpEnv \<Rightarrow> Heartbeat \<Rightarrow> (Db, RepoError, unit) io" where
  "Sqlite_apply_heartbeat e hb = execute_now e (\<lambda>now. update_where (hb_node_id hb) (\<lambda>r. r\<lparr>
     row_last_heartbeat := Some now,
     row_active_connections := SqlInt (ucast (hb_active_connections hb)),
     row_bytes_up := SqlInt (hb_bytes_up hb),
     row_bytes_down := SqlInt (hb_bytes_down hb),
     row_latency_ms := ucast (hb_latency_ms hb),
     row_updated_at := now\<rparr>))"

definition Sqlite_set_draining :: "CpEnv \<Rightarrow> string \<Rightarrow> (Db, RepoError, unit) io" where
  "Sqlite_set_draining e i = execute_now e (\<lambda>now. update_where i (\<lambda>r. r\<lparr>
     row_status := ''draining'', row_updated_at := now\<rparr>))"

definition Sqlite_mark_offline :: "CpEnv \<Rightarrow> string \<Rightarrow> (Db, RepoError, unit) io" where
  "Sqlite_mark_offline e i = execute_now e (\<lambda>now. update_where i (\<lambda>r. r\<lparr>
     row_status := ''offline'', row_updated_at := now\<rparr>))"

definition Sqlite_set_state :: "CpEnv \<Rightarrow> string \<Rightarrow> NodeState \<Rightarrow> (Db, RepoError, unit) io" where
  "Sqlite_set_state e i state = execute_now e (\<lambda>now. update_where i (\<lambda>r. r\<lparr>
     row_status := NodeState_as_str state, row_updated_at := now\<rparr>))"

definition Sqlite_adjust_active :: "CpEnv \<Rightarrow> string \<Rightarrow> i64 \<Rightarrow> (Db, RepoError, unit) io" where
  "Sqlite_adjust_active e i delta = execute_now e (\<lambda>now. update_where i (\<lambda>r. r\<lparr>
     row_active_connections := sql_store (sql_max0 (sql_add (row_active_connections r) (SqlInt delta))),
     row_updated_at := now\<rparr>))"

definition Sqlite_accumulate_bytes :: "CpEnv \<Rightarrow> string \<Rightarrow> u64 \<Rightarrow> u64 \<Rightarrow> (Db, RepoError, unit) io" where
  "Sqlite_accumulate_bytes e i up down = execute_now e (\<lambda>now. update_where i (\<lambda>r. r\<lparr>
     row_bytes_up := sql_store (sql_add (row_bytes_up r) (SqlInt up)),
     row_bytes_down := sql_store (sql_add (row_bytes_down r) (SqlInt down)),
     row_updated_at := now\<rparr>))"

text \<open>The trait object \<^verbatim>\<open>dyn NodeRepository\<close>, and the one implementation.\<close>

record 's NodeRepository =
  repo_register :: "RegisterRequest \<Rightarrow> ('s, RepoError, unit) io"
  repo_get :: "string \<Rightarrow> ('s, RepoError, Node option) io"
  repo_list :: "('s, RepoError, Node list) io"
  repo_apply_heartbeat :: "Heartbeat \<Rightarrow> ('s, RepoError, unit) io"
  repo_set_draining :: "string \<Rightarrow> ('s, RepoError, unit) io"
  repo_mark_offline :: "string \<Rightarrow> ('s, RepoError, unit) io"
  repo_set_state :: "string \<Rightarrow> NodeState \<Rightarrow> ('s, RepoError, unit) io"
  repo_adjust_active :: "string \<Rightarrow> i64 \<Rightarrow> ('s, RepoError, unit) io"
  repo_accumulate_bytes :: "string \<Rightarrow> u64 \<Rightarrow> u64 \<Rightarrow> ('s, RepoError, unit) io"

definition SqliteNodeRepository :: "CpEnv \<Rightarrow> Db NodeRepository" where
  "SqliteNodeRepository e =
     \<lparr>repo_register = Sqlite_register e, repo_get = Sqlite_get e, repo_list = Sqlite_list e,
      repo_apply_heartbeat = Sqlite_apply_heartbeat e, repo_set_draining = Sqlite_set_draining e,
      repo_mark_offline = Sqlite_mark_offline e, repo_set_state = Sqlite_set_state e,
      repo_adjust_active = Sqlite_adjust_active e,
      repo_accumulate_bytes = Sqlite_accumulate_bytes e\<rparr>"

section \<open>The contract of a repository\<close>

type_synonym registry = "string \<rightharpoonup> Node"

definition spec_update :: "string \<Rightarrow> (Node \<Rightarrow> Node) \<Rightarrow> registry \<Rightarrow> registry" where
  "spec_update i f N = N(i := map_option f (N i))"

definition new_node :: "RegisterRequest \<Rightarrow> DateTime \<Rightarrow> Node" where
  "new_node req now =
     \<lparr>nd_id = rr_node_id req, nd_address = rr_address req, nd_state = Starting, nd_last_heartbeat = None,
      nd_max_connections = rr_max_connections req, nd_active_connections = 0,
      nd_bandwidth_limit = rr_bandwidth_limit req, nd_bytes_up = 0, nd_bytes_down = 0, nd_latency_ms = 0,
      nd_created_at = now, nd_updated_at = now\<rparr>"

definition renew_node :: "RegisterRequest \<Rightarrow> DateTime \<Rightarrow> Node \<Rightarrow> Node" where
  "renew_node req now n = n\<lparr>nd_address := rr_address req, nd_max_connections := rr_max_connections req,
     nd_bandwidth_limit := rr_bandwidth_limit req,
     nd_state := (if nd_state n \<in> {Offline, Starting} then Starting else nd_state n),
     nd_updated_at := now\<rparr>"

definition spec_register :: "RegisterRequest \<Rightarrow> DateTime \<Rightarrow> registry \<Rightarrow> registry" where
  "spec_register req now N = N(rr_node_id req \<mapsto>
     (case N (rr_node_id req) of None \<Rightarrow> new_node req now | Some n \<Rightarrow> renew_node req now n))"

definition beat_node :: "Heartbeat \<Rightarrow> DateTime \<Rightarrow> Node \<Rightarrow> Node" where
  "beat_node hb now n = n\<lparr>nd_last_heartbeat := Some now, nd_active_connections := hb_active_connections hb,
     nd_bytes_up := hb_bytes_up hb, nd_bytes_down := hb_bytes_down hb, nd_latency_ms := hb_latency_ms hb,
     nd_updated_at := now\<rparr>"

definition state_node :: "NodeState \<Rightarrow> DateTime \<Rightarrow> Node \<Rightarrow> Node" where
  "state_node st now n = n\<lparr>nd_state := st, nd_updated_at := now\<rparr>"

definition active_node :: "i64 \<Rightarrow> DateTime \<Rightarrow> Node \<Rightarrow> Node" where
  "active_node delta now n = n\<lparr>
     nd_active_connections := of_int (max 0 (int (unat (nd_active_connections n)) + sint delta)),
     nd_updated_at := now\<rparr>"

definition bytes_node :: "u64 \<Rightarrow> u64 \<Rightarrow> DateTime \<Rightarrow> Node \<Rightarrow> Node" where
  "bytes_node up down now n = n\<lparr>nd_bytes_up := nd_bytes_up n + up, nd_bytes_down := nd_bytes_down n + down,
     nd_updated_at := now\<rparr>"

lemmas node_update_defs = renew_node_def beat_node_def state_node_def active_node_def bytes_node_def

definition listing :: "registry \<Rightarrow> Node list" where
  "listing N = map (\<lambda>i. the (N i)) (sorted_list_of_set (dom N))"

text \<open>
  An update either fails and leaves the registry as it was, or maps it by \<open>f\<close>, given
  the time of the call; a query changes nothing and answers \<open>g\<close> of the registry.
\<close>

definition op_updates ::
  "('s \<Rightarrow> bool) \<Rightarrow> ('s \<Rightarrow> registry) \<Rightarrow> ('s \<Rightarrow> DateTime) \<Rightarrow> (registry \<Rightarrow> bool) \<Rightarrow>
   ('s, RepoError, unit) io \<Rightarrow> (DateTime \<Rightarrow> registry \<Rightarrow> registry) \<Rightarrow> bool" where
  "op_updates I nodes stamp pre op f \<longleftrightarrow>
     (\<forall>s r s'. I s \<longrightarrow> pre (nodes s) \<longrightarrow> op s = (r, s') \<longrightarrow>
        I s' \<and> nodes s' = (case r of Inl _ \<Rightarrow> nodes s | Inr _ \<Rightarrow> f (stamp s) (nodes s)))"

definition op_reads ::
  "('s \<Rightarrow> bool) \<Rightarrow> ('s \<Rightarrow> registry) \<Rightarrow> ('s \<Rightarrow> DateTime) \<Rightarrow>
   ('s, RepoError, 'a) io \<Rightarrow> (registry \<Rightarrow> 'a) \<Rightarrow> bool" where
  "op_reads I nodes stamp op g \<longleftrightarrow>
     (\<forall>s r s'. I s \<longrightarrow> op s = (r, s') \<longrightarrow>
        I s' \<and> nodes s' = nodes s \<and> stamp s' = stamp s \<and> (\<forall>x. r = Inr x \<longrightarrow> x = g (nodes s)))"

definition fits_active :: "string \<Rightarrow> i64 \<Rightarrow> registry \<Rightarrow> bool" where
  "fits_active i delta N \<longleftrightarrow>
     (\<forall>n. N i = Some n \<longrightarrow> int (unat (nd_active_connections n)) + sint delta < 2 ^ 32)"

definition fits_bytes :: "string \<Rightarrow> u64 \<Rightarrow> u64 \<Rightarrow> registry \<Rightarrow> bool" where
  "fits_bytes i up down N \<longleftrightarrow>
     (\<forall>n. N i = Some n \<longrightarrow> in_i64 (sint (nd_bytes_up n) + sint up) \<and> in_i64 (sint (nd_bytes_down n) + sint down))"

locale node_repository =
  fixes repo :: "'s NodeRepository"
    and clock :: "'s \<Rightarrow> DateTime \<times> 's"
    and I :: "'s \<Rightarrow> bool"
    and nodes :: "'s \<Rightarrow> registry"
    and stamp :: "'s \<Rightarrow> DateTime"
  assumes finite_nodes: "I s \<Longrightarrow> finite (dom (nodes s))"
    and nodes_id: "I s \<Longrightarrow> nodes s i = Some n \<Longrightarrow> nd_id n = i"
    and clock_reads: "I s \<Longrightarrow> clock s = (t, s') \<Longrightarrow> I s' \<and> nodes s' = nodes s"
    and get_law: "op_reads I nodes stamp (repo_get repo i) (\<lambda>N. N i)"
    and list_law: "op_reads I nodes stamp (repo_list repo) listing"
    and register_law: "op_updates I nodes stamp (\<lambda>_. True) (repo_register repo req) (spec_register req)"
    and heartbeat_law: "op_updates I nodes stamp (\<lambda>_. True) (repo_apply_heartbeat repo hb)
      (\<lambda>now. spec_update (hb_node_id hb) (beat_node hb now))"
    and draining_law: "op_updates I nodes stamp (\<lambda>_. True) (repo_set_draining repo i)
      (\<lambda>now. spec_update i (state_node Draining now))"
    and offline_law: "op_updates I nodes stamp (\<lambda>_. True) (repo_mark_offline repo i)
      (\<lambda>now. spec_update i (state_node Offline now))"
    and state_law: "op_updates I nodes stamp (\<lambda>_. True) (repo_set_state repo i st)
      (\<lambda>now. spec_update i (state_node st now))"
    and active_law: "op_updates I nodes stamp (fits_active i delta) (repo_adjust_active repo i delta)
      (\<lambda>now. spec_update i (active_node delta now))"
    and bytes_law: "op_updates I nodes stamp (fits_bytes i up down) (repo_accumulate_bytes repo i up down)
      (\<lambda>now. spec_update i (bytes_node up down now))"

section \<open>SQLite implements the contract\<close>

text \<open>The clock stays in the range of the timestamps that both SQLite and chrono can hold.\<close>

definition env_ok :: "CpEnv \<Rightarrow> bool" where
  "env_ok e \<longleftrightarrow> (\<forall>i. in_i64 (ce_clock e i div 10 ^ 9) \<and> ce_ts_valid e (ce_clock e i div 10 ^ 9))"

definition row_ok :: "CpEnv \<Rightarrow> row \<Rightarrow> bool" where
  "row_ok e r \<longleftrightarrow> (\<exists>n. row_into_node e r = Inr n) \<and>
     (\<exists>w. row_active_connections r = SqlInt w \<and> w < 2 ^ 32)"

definition table_map :: "CpEnv \<Rightarrow> row list \<Rightarrow> registry" where
  "table_map e rows i = map_option (\<lambda>r. projr (row_into_node e r)) (find (\<lambda>r. row_id r = i) rows)"

definition table_ok :: "CpEnv \<Rightarrow> row list \<Rightarrow> bool" where
  "table_ok e rows \<longleftrightarrow> distinct (map row_id rows) \<and> (\<forall>r \<in> set rows. row_ok e r)"

definition db_inv :: "CpEnv \<Rightarrow> Db \<Rightarrow> bool" where
  "db_inv e db \<longleftrightarrow> env_ok e \<and> table_ok e (db_nodes db)"

definition db_map :: "CpEnv \<Rightarrow> Db \<Rightarrow> registry" where
  "db_map e db = table_map e (db_nodes db)"

definition db_stamp :: "CpEnv \<Rightarrow> Db \<Rightarrow> DateTime" where
  "db_stamp e db = ce_clock e (db_reads db) div 10 ^ 9 * 10 ^ 9"

text \<open>The empty database, and an environment without faults for the concrete instances.\<close>

definition empty_db :: Db where
  "empty_db = \<lparr>db_nodes = [], db_stmts = 0, db_reads = 0\<rparr>"

definition sample_env :: CpEnv where
  "sample_env = \<lparr>ce_fault = (\<lambda>_. False), ce_clock = (\<lambda>_. 1700000000000000000),
     ce_ts_valid = (\<lambda>t. - 8334601228800 \<le> t \<and> t \<le> 8210266876799)\<rparr>"

lemma env_ok_sample: "env_ok sample_env"
  by (simp add: env_ok_def sample_env_def in_i64_def)

lemma db_inv_empty: "env_ok e \<Longrightarrow> db_inv e empty_db"
  by (simp add: db_inv_def empty_db_def table_ok_def)

subsection \<open>Rows\<close>

lemma row_into_node_id: "row_into_node e r = Inr n \<Longrightarrow> nd_id n = row_id r"
  by (auto simp: row_into_node_def and_then_eq_Inr)

lemma try_get_i64_Inr: "try_get_i64 c v = Inr i \<longleftrightarrow> v = SqlInt i"
  by (auto simp: try_get_i64_def split: SqlValue.split)

lemma ok_or_Inr: "ok_or e x = Inr y \<longleftrightarrow> x = Some y"
  by (cases x) auto

lemma row_into_node_Inr:
  "row_into_node e r = Inr n \<longleftrightarrow>
    (\<exists>st a u d c t. row_status r = NodeState_as_str st \<and> row_active_connections r = SqlInt a \<and>
       row_bytes_up r = SqlInt u \<and> row_bytes_down r = SqlInt d \<and>
       from_timestamp e (row_created_at r) = Some c \<and> from_timestamp e (row_updated_at r) = Some t \<and>
       n = \<lparr>nd_id = row_id r, nd_address = row_address r, nd_state = st,
            nd_last_heartbeat = opt_epoch e (row_last_heartbeat r),
            nd_max_connections = ucast (row_max_connections r), nd_active_connections = ucast a,
            nd_bandwidth_limit = row_bandwidth_limit r, nd_bytes_up = u, nd_bytes_down = d,
            nd_latency_ms = ucast (row_latency_ms r), nd_created_at = c, nd_updated_at = t\<rparr>)"
  by (auto simp: row_into_node_def and_then_eq_Inr try_get_i64_Inr ok_or_Inr epoch_def NodeState_parse_Some)

lemma table_map_Nil [simp]: "table_map e [] = Map.empty"
  by (rule ext) (simp add: table_map_def)

lemma table_map_Cons:
  "table_map e (r # rows) = (table_map e rows)(row_id r \<mapsto> projr (row_into_node e r))"
  by (rule ext) (simp add: table_map_def)

lemma table_map_id: "table_ok e rows \<Longrightarrow> table_map e rows i = Some n \<Longrightarrow> nd_id n = i"
  by (auto simp: table_map_def table_ok_def row_ok_def find_Some_iff dest!: nth_mem)
    (metis row_into_node_id sum.sel(2))

lemma dom_table_map: "dom (table_map e rows) = set (map row_id rows)"
  by (auto simp: dom_def table_map_def find_None_iff)

lemma table_map_mem:
  assumes "distinct (map row_id rows)" "r \<in> set rows"
  shows "table_map e rows (row_id r) = Some (projr (row_into_node e r))"
  using assms by (induction rows) (auto simp: table_map_Cons image_iff)

lemma table_map_append:
  assumes "row_id r \<notin> set (map row_id rows)"
  shows "table_map e (rows @ [r]) = (table_map e rows)(row_id r \<mapsto> projr (row_into_node e r))"
  using assms by (induction rows) (auto simp: table_map_Cons fun_upd_twist)

text \<open>A row update that decodes to a node update, and keeps the row well formed.\<close>

definition row_refines :: "CpEnv \<Rightarrow> (row \<Rightarrow> row) \<Rightarrow> (Node \<Rightarrow> Node) \<Rightarrow> row \<Rightarrow> bool" where
  "row_refines e f g r \<longleftrightarrow> row_id (f r) = row_id r \<and>
     (\<forall>n. row_ok e r \<longrightarrow> row_into_node e r = Inr n \<longrightarrow> row_into_node e (f r) = Inr (g n) \<and> row_ok e (f r))"

lemma update_where_Cons:
  "update_where i f (r # rows) = (if row_id r = i then f r else r) # update_where i f rows"
  by (simp add: update_where_def)

lemma table_update:
  assumes "table_ok e rows" "\<And>r. r \<in> set rows \<Longrightarrow> row_id r = i \<Longrightarrow> row_refines e f g r"
  shows "table_ok e (update_where i f rows) \<and>
    table_map e (update_where i f rows) = spec_update i g (table_map e rows) \<and>
    map row_id (update_where i f rows) = map row_id rows"
  using assms
proof (induction rows)
  case (Cons r rows)
  have "row_refines e f g r" if "row_id r = i" using Cons.prems(2) that by simp
  moreover have "table_ok e (update_where i f rows) \<and>
      table_map e (update_where i f rows) = spec_update i g (table_map e rows) \<and>
      map row_id (update_where i f rows) = map row_id rows"
    using Cons by (simp add: table_ok_def)
  moreover have "row_ok e r" "row_id r \<notin> set (map row_id rows)"
    using Cons.prems(1) by (auto simp: table_ok_def)
  moreover obtain n where "row_into_node e r = Inr n" using \<open>row_ok e r\<close> by (auto simp: row_ok_def)
  ultimately show ?case
    by (auto simp: update_where_Cons table_map_Cons row_refines_def table_ok_def spec_update_def
        fun_upd_twist simp flip: set_map)
qed (simp add: update_where_def spec_update_def table_ok_def)

subsection \<open>Casts\<close>

lemma sint_word_of_int_i64 [simp]: "in_i64 x \<Longrightarrow> sint (word_of_int x :: i64) = x"
  using signed_take_bit_int_eq_self [of 63 x] by (simp add: sint_sbintrunc' in_i64_def)

lemma sint_add_i64: "in_i64 (sint a + sint b) \<Longrightarrow> sint (a + b :: i64) = sint a + sint b"
  using signed_take_bit_int_eq_self [of 63 "sint a + sint b"] by (simp add: sint_word_add in_i64_def)

lemma in_i64_sint: "in_i64 (sint (w :: i64))"
  using sint_greater_eq [of w] sint_less [of w] by (simp add: in_i64_def)

lemma ucast_u32_i64_u32 [simp]: "(ucast (ucast (a :: u32) :: i64) :: u32) = a"
  by (rule ucast_up_ucast_id) (simp add: is_up)

lemma ucast_u32_less [simp]: "(ucast (a :: u32) :: i64) < 2 ^ 32"
  using unsigned_less [of a, where 'a = nat] take_bit_nat_less_eq_self [of 64 "unat a"]
  by (simp add: word_less_nat_alt unsigned_ucast_eq le_less_trans [OF take_bit_nat_less_eq_self])

lemma sint_small: "(w :: i64) < 2 ^ 32 \<Longrightarrow> sint w = int (unat w)"
  using signed_take_bit_int_eq_self [of 63 "int (unat w)"]
  by (simp add: sint_uint word_less_nat_alt uint_nat del: of_nat_unat)

lemma unat_ucast_small: "(w :: i64) < 2 ^ 32 \<Longrightarrow> unat (ucast w :: u32) = unat w"
  by (simp add: word_less_nat_alt unsigned_ucast_eq take_bit_nat_eq_self)

lemma small_of_sint:
  assumes "0 \<le> sint (w :: i64)" "sint w < 2 ^ 32"
  shows "w < 2 ^ 32"
proof -
  have "uint w = sint w" using assms by (simp add: uint_sint take_bit_int_eq_self)
  then show ?thesis using assms by (simp add: word_less_def)
qed

text \<open>The increment of \<^verbatim>\<open>adjust_active\<close> stays an integer while the count fits in 32 bits.\<close>

lemma sql_adjust:
  fixes w d :: i64
  assumes "w < 2 ^ 32" "int (unat w) + sint d < 2 ^ 32"
  obtains v where "sql_store (sql_max0 (sql_add (SqlInt w) (SqlInt d))) = SqlInt v" "v < 2 ^ 32"
    "(ucast v :: u32) = of_int (max 0 (int (unat w) + sint d))"
proof -
  have w: "sint w = int (unat w)" using assms(1) by (rule sint_small)
  then have "in_i64 (sint w + sint d)" using assms(2) in_i64_sint [of d] by (simp add: in_i64_def)
  then have add: "sql_add (SqlInt w) (SqlInt d) = SqlInt (w + d)" "sint (w + d) = int (unat w) + sint d"
    using sint_add_i64 w by simp_all
  show thesis
  proof (cases "sint (w + d) < 0")
    case True
    then show thesis using add by (intro that [of 0]) (simp_all add: sql_store_def sql_max0_def)
  next
    case False
    then have small: "w + d < 2 ^ 32" using add assms(2) by (intro small_of_sint) simp_all
    then have "int (unat w) + sint d = int (unat (w + d))" using add sint_small by simp
    then have "(ucast (w + d) :: u32) = of_int (max 0 (int (unat w) + sint d))"
      by (simp add: of_nat_unat)
    then show thesis using False small add(1) by (intro that [of "w + d"]) (simp_all add: sql_store_def sql_max0_def)
  qed
qed

subsection \<open>Statements\<close>

lemma from_timestamp_now:
  "env_ok e \<Longrightarrow> from_timestamp e (word_of_int (ce_clock e i div 10 ^ 9)) = Some (ce_clock e i div 10 ^ 9 * 10 ^ 9)"
  by (simp add: env_ok_def from_timestamp_def)

lemma op_updates_execute_now:
  assumes "\<And>rows w t. table_ok e rows \<Longrightarrow> pre (table_map e rows) \<Longrightarrow> from_timestamp e w = Some t \<Longrightarrow>
      table_ok e (upd w rows) \<and> table_map e (upd w rows) = f t (table_map e rows)"
  shows "op_updates (db_inv e) (db_map e) (db_stamp e) pre (execute_now e upd) f"
  unfolding op_updates_def
proof (intro allI impI)
  fix db r db'
  assume "db_inv e db" "pre (db_map e db)" and run: "execute_now e upd db = (r, db')"
  then have "table_ok e (upd w (db_nodes db)) \<and> table_map e (upd w (db_nodes db)) = f (db_stamp e db) (db_map e db)"
    if "w = word_of_int (ce_clock e (db_reads db) div 10 ^ 9)" for w
    using assms [of "db_nodes db" w "db_stamp e db"] from_timestamp_now [of e "db_reads db"] that
    by (simp add: db_inv_def db_map_def db_stamp_def)
  with run \<open>db_inv e db\<close> show "db_inv e db' \<and>
      db_map e db' = (case r of Inl _ \<Rightarrow> db_map e db | Inr _ \<Rightarrow> f (db_stamp e db) (db_map e db))"
    by (auto simp: execute_now_def now_epoch_def utc_now_def db_execute_def Let_def db_inv_def db_map_def
        split: if_splits)
qed

lemma op_updates_update_where:
  assumes "\<And>r w t. row_ok e r \<Longrightarrow> from_timestamp e w = Some t \<Longrightarrow>
      (\<And>N n. pre N \<Longrightarrow> N (row_id r) = Some n \<Longrightarrow> row_id r = i \<Longrightarrow> row_into_node e r = Inr n \<Longrightarrow>
         row_id (f w r) = i \<and> row_into_node e (f w r) = Inr (g t n) \<and> row_ok e (f w r))"
  shows "op_updates (db_inv e) (db_map e) (db_stamp e) pre
    (execute_now e (\<lambda>now. update_where i (f now))) (\<lambda>now. spec_update i (g now))"
proof (rule op_updates_execute_now)
  fix rows w t
  assume ok: "table_ok e rows" and pre: "pre (table_map e rows)" and t: "from_timestamp e w = Some t"
  have "row_refines e (f w) (g t) r" if r: "r \<in> set rows" "row_id r = i" for r
  proof -
    obtain n where n: "row_into_node e r = Inr n" and rok: "row_ok e r"
      using ok r by (auto simp: table_ok_def row_ok_def)
    have "table_map e rows i = Some n"
      using table_map_mem [of rows r e] ok r n by (simp add: table_ok_def)
    then show ?thesis
      using assms [OF rok t pre] r n by (simp add: row_refines_def)
  qed
  then show "table_ok e (update_where i (f w) rows) \<and>
      table_map e (update_where i (f w) rows) = spec_update i (g t) (table_map e rows)"
    using table_update [OF ok] by blast
qed

lemma op_reads_fetch:
  assumes "\<And>rows x. table_ok e rows \<Longrightarrow> k (query rows) = Inr x \<Longrightarrow> x = g (table_map e rows)"
  shows "op_reads (db_inv e) (db_map e) (db_stamp e) (io_bind (db_fetch e query) (\<lambda>rows. io_lift (k rows))) g"
  using assms
  by (fastforce simp: op_reads_def io_bind_def db_fetch_def Let_def db_inv_def db_map_def db_stamp_def split: if_splits)

lemma row_ok_intro:
  "row_into_node e r = Inr n \<Longrightarrow> row_active_connections r = SqlInt w \<Longrightarrow> w < 2 ^ 32 \<Longrightarrow> row_ok e r"
  by (auto simp: row_ok_def)

subsection \<open>The laws\<close>

lemmas statement_defs =
  Sqlite_apply_heartbeat_def Sqlite_set_draining_def Sqlite_mark_offline_def Sqlite_set_state_def
  Sqlite_adjust_active_def Sqlite_accumulate_bytes_def

lemma opt_epoch_Some: "from_timestamp e w = Some t \<Longrightarrow> opt_epoch e (Some w) = Some t"
  by (simp add: opt_epoch_def)

lemma sqlite_status_law:
  "op_updates (db_inv e) (db_map e) (db_stamp e) pre
    (execute_now e (\<lambda>now. update_where i (\<lambda>r. r\<lparr>row_status := NodeState_as_str st, row_updated_at := now\<rparr>)))
    (\<lambda>now. spec_update i (state_node st now))"
  by (rule op_updates_update_where) (auto simp: row_into_node_Inr row_ok_def state_node_def)

lemma sqlite_heartbeat_law:
  "op_updates (db_inv e) (db_map e) (db_stamp e) pre (Sqlite_apply_heartbeat e hb)
    (\<lambda>now. spec_update (hb_node_id hb) (beat_node hb now))"
  unfolding Sqlite_apply_heartbeat_def
  by (rule op_updates_update_where) (auto simp: row_into_node_Inr row_ok_def beat_node_def opt_epoch_Some
      ucast_u32_less [simplified])

lemma sqlite_active_law:
  "op_updates (db_inv e) (db_map e) (db_stamp e) (fits_active i delta) (Sqlite_adjust_active e i delta)
    (\<lambda>now. spec_update i (active_node delta now))"
  unfolding Sqlite_adjust_active_def
proof (rule op_updates_update_where)
  fix r w t N n
  assume r: "row_ok e r" "from_timestamp e w = Some t" "fits_active i delta N" "N (row_id r) = Some n"
    "row_id r = i" "row_into_node e r = Inr n"
  then obtain a where a: "row_active_connections r = SqlInt a" "a < 2 ^ 32" by (auto simp: row_ok_def)
  then have n: "nd_active_connections n = ucast a" using r(6) by (auto simp: row_into_node_Inr)
  then have "int (unat a) + sint delta < 2 ^ 32"
    using r a by (simp add: fits_active_def unat_ucast_small)
  with a(2) obtain v where "sql_store (sql_max0 (sql_add (SqlInt a) (SqlInt delta))) = SqlInt v" "v < 2 ^ 32"
    "(ucast v :: u32) = of_int (max 0 (int (unat a) + sint delta))"
    by (rule sql_adjust)
  then show "row_id (r\<lparr>row_active_connections := sql_store (sql_max0 (sql_add (row_active_connections r) (SqlInt delta))),
      row_updated_at := w\<rparr>) = i \<and>
    row_into_node e (r\<lparr>row_active_connections := sql_store (sql_max0 (sql_add (row_active_connections r) (SqlInt delta))),
      row_updated_at := w\<rparr>) = Inr (active_node delta t n) \<and>
    row_ok e (r\<lparr>row_active_connections := sql_store (sql_max0 (sql_add (row_active_connections r) (SqlInt delta))),
      row_updated_at := w\<rparr>)"
    using r a n by (auto simp: row_into_node_Inr row_ok_def active_node_def unat_ucast_small)
qed

lemma sql_accumulate: "in_i64 (sint a + sint b) \<Longrightarrow> sql_store (sql_add (SqlInt a) (SqlInt b)) = SqlInt (a + b)"
  by (simp add: sql_store_def)

lemma sqlite_bytes_law:
  "op_updates (db_inv e) (db_map e) (db_stamp e) (fits_bytes i up down) (Sqlite_accumulate_bytes e i up down)
    (\<lambda>now. spec_update i (bytes_node up down now))"
  unfolding Sqlite_accumulate_bytes_def
  by (rule op_updates_update_where)
    (auto simp: row_into_node_Inr row_ok_def bytes_node_def fits_bytes_def sql_accumulate
      simp del: sql_add.simps)

lemma upsert_status:
  "(if NodeState_as_str st \<in> {''offline'', ''starting''} then ''starting'' else NodeState_as_str st) =
    NodeState_as_str (if st \<in> {Offline, Starting} then Starting else st)"
  by (cases st) simp_all

lemma sqlite_register_law:
  "op_updates (db_inv e) (db_map e) (db_stamp e) (\<lambda>_. True) (Sqlite_register e req) (spec_register req)"
  unfolding Sqlite_register_def
proof (rule op_updates_execute_now)
  fix rows w t
  let ?i = "rr_node_id req"
  assume ok: "table_ok e rows" and t: "from_timestamp e w = Some t"
  show "table_ok e (upsert_node req w rows) \<and>
      table_map e (upsert_node req w rows) = spec_register req t (table_map e rows)"
  proof (cases "?i \<in> set (map row_id rows)")
    case True
    then obtain n where "table_map e rows ?i = Some n" using dom_table_map [of e rows] by blast
    moreover have "row_refines e (conflict_update req w) (renew_node req t) r" for r
      using t by (auto simp: row_refines_def row_into_node_Inr row_ok_def renew_node_def conflict_update_def upsert_status
          simp del: insert_iff split del: if_split cong: if_cong)
    ultimately show ?thesis
      using True table_update [OF ok, of ?i "conflict_update req w" "renew_node req t"]
      by (simp add: upsert_node_def spec_register_def spec_update_def)
  next
    case False
    then have none: "table_map e rows ?i = None" using dom_table_map [of e rows] by blast
    define r where "r = \<lparr>row_id = ?i, row_address = rr_address req, row_status = ''starting'',
      row_last_heartbeat = None, row_max_connections = ucast (rr_max_connections req),
      row_active_connections = SqlInt 0, row_bandwidth_limit = rr_bandwidth_limit req,
      row_bytes_up = SqlInt 0, row_bytes_down = SqlInt 0, row_latency_ms = 0,
      row_created_at = w, row_updated_at = w\<rparr>"
    have "row_into_node e r = Inr (new_node req t)"
      using t by (simp add: r_def row_into_node_def new_node_def epoch_def try_get_i64_def opt_epoch_def
          NodeState_parse_def)
    moreover then have "row_ok e r" by (auto simp: row_ok_def r_def)
    moreover have "upsert_node req w rows = rows @ [r]" using False by (simp add: upsert_node_def r_def)
    moreover have "row_id r = ?i" by (simp add: r_def)
    ultimately show ?thesis
      using ok False none table_map_append [of r rows e] by (auto simp: table_ok_def spec_register_def)
  qed
qed

lemma sqlite_get_law: "op_reads (db_inv e) (db_map e) (db_stamp e) (Sqlite_get e i) (\<lambda>N. N i)"
  unfolding Sqlite_get_def
proof (rule op_reads_fetch)
  fix rows x
  assume "(case find (\<lambda>r. row_id r = i) rows of None \<Rightarrow> Inr None | Some r \<Rightarrow> map_ok Some (row_into_node e r)) = Inr x"
  then show "x = table_map e rows i"
    by (auto simp: table_map_def map_ok_def split: option.splits sum.splits)
qed

lemma Sqlite_get_total:
  assumes "db_inv e db" "\<not> ce_fault e (db_stmts db)"
  shows "\<exists>db'. Sqlite_get e i db = (Inr (db_map e db i), db')"
proof (cases "find (\<lambda>r. row_id r = i) (db_nodes db)")
  case None
  then show ?thesis using assms(2)
    by (simp add: Sqlite_get_def io_bind_def db_fetch_def Let_def db_map_def table_map_def)
next
  case (Some r)
  then have "r \<in> set (db_nodes db)" by (auto simp: find_Some_iff)
  then obtain n where "row_into_node e r = Inr n"
    using assms(1) by (auto simp: db_inv_def table_ok_def row_ok_def)
  then show ?thesis using assms(2) Some
    by (simp add: Sqlite_get_def io_bind_def db_fetch_def Let_def db_map_def table_map_def)
qed

lemma listing_table_map:
  assumes "table_ok e rows"
  shows "listing (table_map e rows) = map (\<lambda>r. projr (row_into_node e r)) (sort_key row_id rows)"
proof -
  have d: "distinct (map row_id rows)" using assms by (simp add: table_ok_def)
  then have "sorted_list_of_set (set (map row_id rows)) = map row_id (sort_key row_id rows)"
    by (intro sorted_distinct_set_unique) (simp_all add: distinct_map)
  then show ?thesis
    using table_map_mem [OF d, of _ e] by (simp add: listing_def dom_table_map del: set_map)
qed

lemma sqlite_list_law: "op_reads (db_inv e) (db_map e) (db_stamp e) (Sqlite_list e) listing"
  unfolding Sqlite_list_def
proof (rule op_reads_fetch)
  fix rows x
  assume "table_ok e rows" and "collect_ok (map (row_into_node e) (sort_key row_id rows)) = Inr x"
  then show "x = listing (table_map e rows)"
    by (simp add: listing_table_map collect_ok_Inr)
      (metis (no_types, lifting) comp_apply list.map_comp list.map_ident map_eq_conv sum.sel(2))
qed

interpretation sqlite: node_repository "SqliteNodeRepository e" "utc_now e" "db_inv e" "db_map e" "db_stamp e"
proof unfold_locales
  show "db_inv e s \<Longrightarrow> finite (dom (db_map e s))" for s
    by (simp add: db_map_def dom_table_map)
  show "db_inv e s \<Longrightarrow> db_map e s i = Some n \<Longrightarrow> nd_id n = i" for s i n
    by (auto simp: db_inv_def db_map_def intro: table_map_id)
  show "db_inv e s \<Longrightarrow> utc_now e s = (t, s') \<Longrightarrow> db_inv e s' \<and> db_map e s' = db_map e s" for s t s'
    by (auto simp: utc_now_def db_inv_def db_map_def)
qed (simp_all add: SqliteNodeRepository_def sqlite_get_law sqlite_list_law sqlite_register_law
    sqlite_heartbeat_law sqlite_active_law sqlite_bytes_law Sqlite_set_state_def sqlite_status_law
    Sqlite_set_draining_def sqlite_status_law [where st = Draining, simplified]
    Sqlite_mark_offline_def sqlite_status_law [where st = Offline, simplified])

subsection \<open>A concrete registry\<close>

definition sample_request :: RegisterRequest where
  "sample_request = \<lparr>rr_node_id = ''n1'', rr_address = ''10.0.0.1:1080'', rr_max_connections = 10,
     rr_bandwidth_limit = 1000\<rparr>"

definition sample_beat :: "u32 \<Rightarrow> Heartbeat" where
  "sample_beat active = \<lparr>hb_node_id = ''n1'', hb_active_connections = active, hb_bytes_up = 7,
     hb_bytes_down = 2 ^ 63, hb_latency_ms = 3, hb_available_bandwidth = 0\<rparr>"

definition sample_db :: Db where
  "sample_db = snd (Sqlite_register sample_env sample_request empty_db)"

lemma execute_now_sample:
  "execute_now sample_env upd db = (Inr (), snd (execute_now sample_env upd db))"
  by (simp add: execute_now_def now_epoch_def utc_now_def db_execute_def sample_env_def Let_def)

lemma sample_register_run: "Sqlite_register sample_env sample_request empty_db = (Inr (), sample_db)"
  unfolding sample_db_def Sqlite_register_def by (rule execute_now_sample)

lemma sample_db_ok:
  "db_inv sample_env sample_db"
  "db_map sample_env sample_db = [''n1'' \<mapsto> new_node sample_request 1700000000000000000]"
proof -
  have "db_inv sample_env sample_db \<and>
      db_map sample_env sample_db = spec_register sample_request (db_stamp sample_env empty_db) (db_map sample_env empty_db)"
    using sqlite_register_law [of sample_env sample_request] db_inv_empty [OF env_ok_sample] sample_register_run
    unfolding op_updates_def by fastforce
  then show "db_inv sample_env sample_db"
    and "db_map sample_env sample_db = [''n1'' \<mapsto> new_node sample_request 1700000000000000000]"
    by (simp_all add: spec_register_def sample_request_def db_map_def empty_db_def db_stamp_def sample_env_def)
qed

section \<open>Properties\<close>

text \<open>
  C11. Registration refines an idempotent map update. Whatever happens, the table keeps unique ids
  and decodable rows; on an error nothing has changed; on success exactly the registered id has: a new node starts with no
  load, an existing one gets the new address and limits, keeps its heartbeat and counters, and returns to
  Starting only from Offline.
\<close>

theorem register_refines:
  assumes "db_inv e db" and "Sqlite_register e req db = (r, db')"
  shows "db_inv e db' \<and>
    db_map e db' = (case r of Inl _ \<Rightarrow> db_map e db | Inr _ \<Rightarrow> spec_register req (db_stamp e db) (db_map e db))"
  using sqlite_register_law [of e req] assms unfolding op_updates_def by blast

theorem register_refines_witness:
  "db_map sample_env (snd (Sqlite_register sample_env sample_request empty_db)) =
   spec_register sample_request (db_stamp sample_env empty_db) (db_map sample_env empty_db)"
  using register_refines [OF db_inv_empty [OF env_ok_sample] sample_register_run] sample_register_run by simp

text \<open>
  C22. The stored form of a node loses nothing: after a heartbeat succeeds, reading the node back gives
  the reported load, byte counts and latency exactly, for every 32- and 64-bit value, including byte
  counts that are negative as signed 64-bit columns.
\<close>

theorem heartbeat_read_back:
  assumes "db_inv e db" "Sqlite_apply_heartbeat e hb db = (Inr (), db')" "db_map e db (hb_node_id hb) = Some n"
    and "Sqlite_get e (hb_node_id hb) db' = (Inr found, db'')"
  shows "found = Some (n\<lparr>nd_last_heartbeat := Some (db_stamp e db), nd_active_connections := hb_active_connections hb,
    nd_bytes_up := hb_bytes_up hb, nd_bytes_down := hb_bytes_down hb, nd_latency_ms := hb_latency_ms hb,
    nd_updated_at := db_stamp e db\<rparr>)"
proof -
  have "db_inv e db' \<and> db_map e db' = spec_update (hb_node_id hb) (beat_node hb (db_stamp e db)) (db_map e db)"
    using sqlite_heartbeat_law [of e "\<lambda>_. True" hb] assms(1,2) unfolding op_updates_def by fastforce
  moreover from this have "found = db_map e db' (hb_node_id hb)"
    using sqlite_get_law [of e "hb_node_id hb"] assms(4) unfolding op_reads_def by blast
  ultimately show ?thesis using assms(3) by (simp add: spec_update_def beat_node_def)
qed

theorem heartbeat_read_back_witness:
  "\<exists>n. fst (Sqlite_get sample_env ''n1'' (snd (Sqlite_apply_heartbeat sample_env (sample_beat 9) sample_db))) = Inr (Some n) \<and>
     nd_active_connections n = 9 \<and> nd_bytes_down n = 2 ^ 63"
proof -
  let ?db = "snd (Sqlite_apply_heartbeat sample_env (sample_beat 9) sample_db)"
  have run: "Sqlite_apply_heartbeat sample_env (sample_beat 9) sample_db = (Inr (), ?db)"
    unfolding Sqlite_apply_heartbeat_def by (rule execute_now_sample)
  have n: "db_map sample_env sample_db (hb_node_id (sample_beat 9)) = Some (new_node sample_request 1700000000000000000)"
    by (simp add: sample_db_ok sample_beat_def)
  have inv: "db_inv sample_env ?db"
    using sqlite_heartbeat_law [of sample_env "\<lambda>_. True" "sample_beat 9"] sample_db_ok(1) run
    unfolding op_updates_def by blast
  obtain found db where get: "Sqlite_get sample_env (hb_node_id (sample_beat 9)) ?db = (Inr found, db)"
    using Sqlite_get_total [OF inv] by (fastforce simp: sample_env_def)
  show ?thesis
    using heartbeat_read_back [OF sample_db_ok(1) run n get] get by (simp add: sample_beat_def)
qed

end
