(* ===== verification/CP_Routing.thy ===== *)
theory CP_Routing
  imports CP_Model
begin

text \<open>
  Health-aware node selection, from \<^verbatim>\<open>routing.rs\<close>: the composite score of a node, in
  \<^verbatim>\<open>f64\<close> arithmetic with every rounding step, and the selector. The contract of a
  selector (the \<^verbatim>\<open>NodeSelector\<close> trait) is the locale \<open>node_selector\<close>.
\<close>

record ScoreWeights =
  sw_health :: rat
  sw_capacity :: rat
  sw_latency :: rat
  sw_bandwidth :: rat

definition ScoreWeights_default :: ScoreWeights where
  "ScoreWeights_default = \<lparr>sw_health = 100, sw_capacity = 1, sw_latency = 1, sw_bandwidth = 1\<rparr>"

fun health_factor :: "NodeState \<Rightarrow> rat" where
  "health_factor Healthy = 1"
| "health_factor Degraded = 1 / 2"
| "health_factor _ = 0"

definition capacity_factor :: "Node \<Rightarrow> rat" where
  "capacity_factor n =
     (if nd_max_connections n = 0 then 0
      else f64_div (f64_of_u32 (available_capacity n)) (f64_of_u32 (nd_max_connections n)))"

definition latency_factor :: "u32 \<Rightarrow> rat" where
  "latency_factor latency_ms = f64_div 1 (f64_add 1 (f64_of_u32 latency_ms))"

definition bandwidth_factor :: "Node \<Rightarrow> rat" where
  "bandwidth_factor n = f64_sub 1 (bandwidth_utilization n)"

definition score :: "Node \<Rightarrow> ScoreWeights \<Rightarrow> rat" where
  "score n w =
     (if \<not> is_selectable n then 0
      else
        let health = health_factor (nd_state n);
            capacity = capacity_factor n;
            latency = latency_factor (nd_latency_ms n);
            bandwidth = bandwidth_factor n
        in f64_mul (f64_mul (f64_mul (f64_mul (sw_health w) health)
             (f64_add 1 (f64_mul (sw_capacity w) capacity)))
             (f64_add 1 (f64_mul (sw_latency w) latency)))
             (f64_add 1 (f64_mul (sw_bandwidth w) bandwidth)))"

datatype Ordering = Less | Equal | Greater

text \<open>\<^verbatim>\<open>f64::partial_cmp\<close>: always \<^const>\<open>Some\<close> on the finite values of the model.\<close>

definition partial_cmp :: "rat \<Rightarrow> rat \<Rightarrow> Ordering option" where
  "partial_cmp x y = Some (if x < y then Less else if x = y then Equal else Greater)"

text \<open>\<^verbatim>\<open>Iterator::max_by\<close>: of two elements the earlier one is kept only if it is greater.\<close>

fun max_by :: "('a \<Rightarrow> 'a \<Rightarrow> Ordering) \<Rightarrow> 'a list \<Rightarrow> 'a option" where
  "max_by cmp [] = None"
| "max_by cmp (x # xs) = Some (foldl (\<lambda>x y. if cmp x y = Greater then x else y) x xs)"

definition score_cmp :: "ScoreWeights \<Rightarrow> Node \<Rightarrow> Node \<Rightarrow> Ordering" where
  "score_cmp w a b = (case partial_cmp (score a w) (score b w) of None \<Rightarrow> Equal | Some c \<Rightarrow> c)"

record HealthAwareSelector =
  has_weights :: ScoreWeights

definition HealthAwareSelector_new :: "ScoreWeights \<Rightarrow> HealthAwareSelector" where
  "HealthAwareSelector_new w = \<lparr>has_weights = w\<rparr>"

definition HealthAwareSelector_select :: "HealthAwareSelector \<Rightarrow> Node list \<Rightarrow> Node option" where
  "HealthAwareSelector_select s nodes = max_by (score_cmp (has_weights s)) (filter is_selectable nodes)"

section \<open>Bounds and monotonicity of the factors\<close>

lemma ratio_bounds:
  fixes a m :: u32
  assumes "a \<le> m"
  shows "0 \<le> f64_div (f64_of_u32 a) (f64_of_u32 m)" "f64_div (f64_of_u32 a) (f64_of_u32 m) \<le> 1"
proof -
  show "0 \<le> f64_div (f64_of_u32 a) (f64_of_u32 m)" by (simp add: f64_div_def rnd_nonneg)
  have "of_nat (unat a) / of_nat (unat m) \<le> (1 :: rat)"
    using assms by (simp add: word_le_nat_alt divide_le_eq)
  then show "f64_div (f64_of_u32 a) (f64_of_u32 m) \<le> 1" by (simp add: f64_div_def rnd_le_1)
qed

lemma available_capacity_le: "available_capacity n \<le> nd_max_connections n"
  by (simp add: available_capacity_def word_le_nat_alt unat_saturating_sub)

lemma capacity_factor_bounds: "0 \<le> capacity_factor n" "capacity_factor n \<le> 1"
  using ratio_bounds [OF available_capacity_le [of n]] by (simp_all add: capacity_factor_def)

lemma latency_factor_bounds: "0 \<le> latency_factor l" "latency_factor l \<le> 1"
proof -
  have "1 \<le> f64_add 1 (f64_of_u32 l)" by (simp add: f64_add_def rnd_ge_1)
  then show "0 \<le> latency_factor l" "latency_factor l \<le> 1"
    by (simp_all add: latency_factor_def f64_div_def rnd_nonneg rnd_le_1 divide_le_eq)
qed

lemma bandwidth_factor_bounds: "0 \<le> bandwidth_factor n" "bandwidth_factor n \<le> 1"
  using bandwidth_utilization_bounds [of n]
  by (simp_all add: bandwidth_factor_def f64_sub_def rnd_nonneg rnd_le_1)

lemmas factor_bounds = capacity_factor_bounds latency_factor_bounds bandwidth_factor_bounds

lemma capacity_factor_antimono:
  assumes "nd_max_connections m = nd_max_connections n"
    and "nd_active_connections m \<le> nd_active_connections n"
  shows "capacity_factor n \<le> capacity_factor m"
proof -
  have "unat (available_capacity n) \<le> unat (available_capacity m)"
    using assms by (simp add: available_capacity_def unat_saturating_sub word_le_nat_alt)
  then show ?thesis using assms by (simp add: capacity_factor_def f64_div_mono)
qed

lemma bandwidth_factor_antimono:
  assumes "nd_max_connections m = nd_max_connections n"
    and "nd_active_connections m \<le> nd_active_connections n"
  shows "bandwidth_factor n \<le> bandwidth_factor m"
  unfolding bandwidth_factor_def
  using bandwidth_utilization_mono [OF assms] by (intro f64_sub_mono) simp_all

lemma latency_factor_antimono:
  assumes "k \<le> l"
  shows "latency_factor l \<le> latency_factor k"
proof -
  have "f64_add 1 (f64_of_u32 k) \<le> f64_add 1 (f64_of_u32 l)"
    using assms by (intro f64_add_mono) (simp_all add: word_le_nat_alt)
  moreover have "1 \<le> f64_add 1 (f64_of_u32 k)" by (simp add: f64_add_def rnd_ge_1)
  ultimately show ?thesis
    unfolding latency_factor_def f64_div_def by (intro rnd_mono divide_left_mono) simp_all
qed

section \<open>Bounds and monotonicity of the score\<close>

definition weights_ok :: "ScoreWeights \<Rightarrow> bool" where
  "weights_ok w \<longleftrightarrow> 0 \<le> sw_health w \<and> 0 \<le> sw_capacity w \<and> 0 \<le> sw_latency w \<and> 0 \<le> sw_bandwidth w"

lemma weights_ok_default [simp]: "weights_ok ScoreWeights_default"
  by (simp add: weights_ok_def ScoreWeights_default_def)

definition score_of :: "ScoreWeights \<Rightarrow> rat \<Rightarrow> rat \<Rightarrow> rat \<Rightarrow> rat \<Rightarrow> rat" where
  "score_of w h c l b =
     f64_mul (f64_mul (f64_mul (f64_mul (sw_health w) h)
       (f64_add 1 (f64_mul (sw_capacity w) c)))
       (f64_add 1 (f64_mul (sw_latency w) l)))
       (f64_add 1 (f64_mul (sw_bandwidth w) b))"

lemma score_eq:
  "is_selectable n \<Longrightarrow> score n w =
     score_of w (health_factor (nd_state n)) (capacity_factor n) (latency_factor (nd_latency_ms n))
       (bandwidth_factor n)"
  by (simp add: score_def score_of_def Let_def)

lemma f64_mul_nonneg: "0 \<le> x \<Longrightarrow> 0 \<le> y \<Longrightarrow> 0 \<le> f64_mul x y"
  by (simp add: f64_mul_def rnd_nonneg)

lemma f64_add_nonneg: "0 \<le> x \<Longrightarrow> 0 \<le> y \<Longrightarrow> 0 \<le> f64_add x y"
  by (simp add: f64_add_def rnd_nonneg)

lemma score_of_mono:
  assumes "weights_ok w" and "0 \<le> h" "h \<le> h'" "0 \<le> c" "c \<le> c'" "0 \<le> l" "l \<le> l'" "0 \<le> b" "b \<le> b'"
  shows "score_of w h c l b \<le> score_of w h' c' l' b'"
  using assms unfolding score_of_def weights_ok_def
  by (intro f64_mul_mono f64_add_mono f64_mul_nonneg f64_add_nonneg) simp_all

lemma health_factor_nonneg [simp]: "0 \<le> health_factor s"
  by (cases s) simp_all

lemma score_mono:
  assumes "weights_ok w" "is_selectable m" "is_selectable n"
    and "health_factor (nd_state n) \<le> health_factor (nd_state m)"
    and "nd_max_connections m = nd_max_connections n"
    and "nd_active_connections m \<le> nd_active_connections n"
    and "nd_latency_ms m \<le> nd_latency_ms n"
  shows "score n w \<le> score m w"
  using assms capacity_factor_antimono [of m n] bandwidth_factor_antimono [of m n]
    latency_factor_antimono [of "nd_latency_ms m" "nd_latency_ms n"]
  by (simp add: score_eq score_of_mono factor_bounds)

lemma score_of_default_bounds:
  assumes "1 / 2 \<le> h" "h \<le> 1" "0 \<le> c" "c \<le> 1" "0 \<le> l" "l \<le> 1" "0 \<le> b" "b \<le> 1"
  shows "50 \<le> score_of ScoreWeights_default h c l b" "score_of ScoreWeights_default h c l b \<le> 800"
proof -
  have "score_of ScoreWeights_default (1 / 2) 0 0 0 = 50" "score_of ScoreWeights_default 1 1 1 1 = 800"
    by (simp_all add: score_of_def ScoreWeights_default_def f64_mul_def f64_add_def rnd_numeral)
  then show "50 \<le> score_of ScoreWeights_default h c l b" "score_of ScoreWeights_default h c l b \<le> 800"
    using score_of_mono [of ScoreWeights_default "1 / 2" h 0 c 0 l 0 b]
      score_of_mono [of ScoreWeights_default h 1 c 1 l 1 b 1] assms by simp_all
qed

lemma score_default_bounds:
  assumes "is_selectable n"
  shows "50 \<le> score n ScoreWeights_default" "score n ScoreWeights_default \<le> 800"
proof -
  have "1 / 2 \<le> health_factor (nd_state n)" "health_factor (nd_state n) \<le> 1"
    using assms by (auto simp: is_selectable_def)
  then show "50 \<le> score n ScoreWeights_default" "score n ScoreWeights_default \<le> 800"
    using score_of_default_bounds factor_bounds assms by (simp_all add: score_eq)
qed

text \<open>
  Doubling commutes with rounding, so halving the health factor halves the score exactly.
\<close>

lemma f64_mul_double: "1 \<le> x * y \<Longrightarrow> f64_mul (2 * x) y = 2 * f64_mul x y"
  using rnd_double_ge1 [of "x * y"] by (simp add: f64_mul_def mult.assoc)

lemma mult_ge_1: "1 \<le> x \<Longrightarrow> 1 \<le> y \<Longrightarrow> 1 \<le> x * (y :: rat)"
  using mult_mono [of 1 x 1 y] by simp

lemma f64_mul_ge_1: "1 \<le> x \<Longrightarrow> 1 \<le> y \<Longrightarrow> 1 \<le> f64_mul x y"
  by (simp add: f64_mul_def rnd_ge_1 mult_ge_1)

lemma one_plus_ge_1: "0 \<le> x \<Longrightarrow> 1 \<le> f64_add 1 x"
  by (simp add: f64_add_def rnd_ge_1)

lemma score_of_health_double:
  assumes "0 \<le> c" "0 \<le> l" "0 \<le> b"
  shows "score_of ScoreWeights_default 1 c l b = 2 * score_of ScoreWeights_default (1 / 2) c l b"
proof -
  define A where "A = f64_add 1 (f64_mul 1 c)"
  define B where "B = f64_add 1 (f64_mul 1 l)"
  define C where "C = f64_add 1 (f64_mul 1 b)"
  have ge: "1 \<le> A" "1 \<le> B" "1 \<le> C"
    using assms by (simp_all add: A_def B_def C_def one_plus_ge_1 f64_mul_nonneg)
  have "f64_mul 100 A = 2 * f64_mul 50 A"
    using f64_mul_double [of 50 A] ge mult_ge_1 [of 50 A] by simp
  then have "f64_mul (f64_mul 100 A) B = 2 * f64_mul (f64_mul 50 A) B"
    using ge by (simp add: f64_mul_double mult_ge_1 f64_mul_ge_1)
  then have "f64_mul (f64_mul (f64_mul 100 A) B) C = 2 * f64_mul (f64_mul (f64_mul 50 A) B) C"
    using ge by (simp add: f64_mul_double mult_ge_1 f64_mul_ge_1)
  moreover have "f64_mul 100 1 = 100" "f64_mul 100 (1 / 2) = 50"
    by (simp_all add: f64_mul_def rnd_numeral)
  ultimately show ?thesis
    by (simp add: score_of_def ScoreWeights_default_def A_def B_def C_def)
qed

section \<open>The selector\<close>

lemma score_cmp_Greater: "score_cmp w a b = Greater \<longleftrightarrow> score b w < score a w"
  by (auto simp: score_cmp_def partial_cmp_def)

lemma foldl_max_split:
  fixes f :: "'a \<Rightarrow> rat"
  assumes "foldl (\<lambda>x y. if f y < f x then x else y) x xs = m"
  shows "\<exists>pre post. x # xs = pre @ m # post \<and> (\<forall>y \<in> set pre. f y \<le> f m) \<and> (\<forall>y \<in> set post. f y < f m)"
  using assms
proof (induction xs arbitrary: m rule: rev_induct)
  case Nil
  then show ?case by (metis append_Nil empty_iff foldl_Nil list.set(1))
next
  case (snoc y xs)
  define k where "k = foldl (\<lambda>x y. if f y < f x then x else y) x xs"
  obtain pre post where split: "x # xs = pre @ k # post"
    and pre: "\<forall>z \<in> set pre. f z \<le> f k" and post: "\<forall>z \<in> set post. f z < f k"
    using snoc.IH [OF k_def [symmetric]] by blast
  show ?case
  proof (cases "f y < f k")
    case True
    then have "x # xs @ [y] = pre @ m # (post @ [y])" "m = k"
      using snoc.prems split by (simp_all add: k_def)
    then show ?thesis using True pre post by (intro exI [of _ pre] exI [of _ "post @ [y]"]) auto
  next
    case False
    then have m: "m = y" using snoc.prems by (simp add: k_def)
    have "\<forall>z \<in> set (x # xs). f z \<le> f y" using False pre post split by fastforce
    then show ?thesis using m by (intro exI [of _ "x # xs"] exI [of _ "[]"]) auto
  qed
qed

lemma max_split_unique:
  fixes f :: "'a \<Rightarrow> rat"
  assumes "pre @ m # post = pre' @ m' # post'"
    and "\<forall>y \<in> set pre. f y \<le> f m" "\<forall>y \<in> set post. f y < f m"
    and "\<forall>y \<in> set pre'. f y \<le> f m'" "\<forall>y \<in> set post'. f y < f m'"
  shows "m = m'"
proof -
  have "length pre = length pre'"
  proof (rule ccontr)
    have before: "False" if eq: "as @ a # bs = as' @ a' # bs'" "length as < length as'"
      and ord: "\<forall>y \<in> set bs. f y < f a" "\<forall>y \<in> set as'. f y \<le> f a'" for as bs as' bs' a a'
    proof -
      obtain us where "as' = as @ a # us" and "bs = us @ a' # bs'"
        using eq by (auto simp: append_eq_append_conv2 Cons_eq_append_conv)
      then show False using ord by auto
    qed
    assume "length pre \<noteq> length pre'"
    then consider "length pre < length pre'" | "length pre' < length pre" by linarith
    then show False
      using before [OF assms(1) _ assms(3,4)] before [OF assms(1) [symmetric] _ assms(5,2)] by cases
  qed
  then show ?thesis using assms(1) by simp
qed

lemma HealthAwareSelector_select_iff:
  "HealthAwareSelector_select s nodes = Some n \<longleftrightarrow>
    (\<exists>pre post. filter is_selectable nodes = pre @ n # post \<and>
       (\<forall>m \<in> set pre. score m (has_weights s) \<le> score n (has_weights s)) \<and>
       (\<forall>m \<in> set post. score m (has_weights s) < score n (has_weights s)))"
proof (cases "filter is_selectable nodes")
  case Nil
  then show ?thesis by (simp add: HealthAwareSelector_select_def)
next
  case (Cons x xs)
  let ?f = "\<lambda>n. score n (has_weights s)"
  define k where "k = foldl (\<lambda>x y. if ?f y < ?f x then x else y) x xs"
  have k: "HealthAwareSelector_select s nodes = Some k"
    by (simp add: HealthAwareSelector_select_def Cons score_cmp_Greater k_def)
  obtain pre post where "x # xs = pre @ k # post"
    "\<forall>y \<in> set pre. ?f y \<le> ?f k" "\<forall>y \<in> set post. ?f y < ?f k"
    using foldl_max_split [OF k_def [symmetric]] by blast
  then show ?thesis unfolding k Cons
    using max_split_unique [of pre k post _ n _ ?f] by (metis option.inject)
qed

lemma HealthAwareSelector_select_None:
  "HealthAwareSelector_select s nodes = None \<longleftrightarrow> (\<forall>n \<in> set nodes. \<not> is_selectable n)"
proof -
  have "HealthAwareSelector_select s nodes = None \<longleftrightarrow> filter is_selectable nodes = []"
    by (cases "filter is_selectable nodes") (simp_all add: HealthAwareSelector_select_def)
  then show ?thesis by (simp add: filter_empty_conv)
qed

text \<open>What the rest of the control plane may assume of a node selector.\<close>

locale node_selector =
  fixes select :: "Node list \<Rightarrow> Node option"
    and rank :: "Node \<Rightarrow> rat"
  assumes select_best: "select nodes = Some n \<Longrightarrow>
      n \<in> set nodes \<and> is_selectable n \<and> (\<forall>m \<in> set nodes. is_selectable m \<longrightarrow> rank m \<le> rank n)"
    and select_total: "n \<in> set nodes \<Longrightarrow> is_selectable n \<Longrightarrow> select nodes \<noteq> None"
begin

lemma select_None_iff: "select nodes = None \<longleftrightarrow> (\<forall>n \<in> set nodes. \<not> is_selectable n)"
  using select_best select_total by (metis not_None_eq)

lemma select_Some_ex: "n \<in> set nodes \<Longrightarrow> is_selectable n \<Longrightarrow> \<exists>m. select nodes = Some m \<and> rank n \<le> rank m"
  using select_best select_total by (metis not_None_eq)

lemma select_same_rank:
  assumes "select ns = Some a" "select ms = Some b" "set ns = set ms"
  shows "rank a = rank b"
  using select_best [OF assms(1)] select_best [OF assms(2)] assms(3) by (auto intro: antisym)

end

interpretation health_selector: node_selector "HealthAwareSelector_select s" "\<lambda>n. score n (has_weights s)"
proof unfold_locales
  fix nodes n
  assume "HealthAwareSelector_select s nodes = Some n"
  then obtain pre post where split: "filter is_selectable nodes = pre @ n # post"
    and le: "\<forall>m \<in> set pre. score m (has_weights s) \<le> score n (has_weights s)"
      "\<forall>m \<in> set post. score m (has_weights s) < score n (has_weights s)"
    unfolding HealthAwareSelector_select_iff by blast
  have mem: "m \<in> set nodes \<and> is_selectable m \<longleftrightarrow> m \<in> set pre \<or> m = n \<or> m \<in> set post" for m
    using arg_cong [OF split, of set] by auto
  have "score m (has_weights s) \<le> score n (has_weights s)" if "m \<in> set nodes" "is_selectable m" for m
    using that mem [of m] le by (auto intro: less_imp_le)
  then show "n \<in> set nodes \<and> is_selectable n \<and>
      (\<forall>m \<in> set nodes. is_selectable m \<longrightarrow> score m (has_weights s) \<le> score n (has_weights s))"
    using mem [of n] by blast
qed (auto simp: HealthAwareSelector_select_None)

section \<open>Properties\<close>

text \<open>
  C12. The selector returns a best node: one that is in the list, Healthy or Degraded, with a
  score no lower than that of any other selectable node; of equal scores it returns the last,
  and it returns none only if no node is selectable.
\<close>

theorem select_optimal:
  "(HealthAwareSelector_select s nodes = Some n \<longleftrightarrow>
     (\<exists>pre post. filter is_selectable nodes = pre @ n # post \<and>
       (\<forall>m. m \<in> set pre \<longrightarrow> score m (has_weights s) \<le> score n (has_weights s)) \<and>
       (\<forall>m. m \<in> set post \<longrightarrow> score m (has_weights s) < score n (has_weights s)))) \<and>
   (HealthAwareSelector_select s nodes = None \<longleftrightarrow> (\<forall>m. m \<in> set nodes \<longrightarrow> \<not> is_selectable m))"
  using HealthAwareSelector_select_iff [of s nodes n] HealthAwareSelector_select_None [of s nodes] by blast

theorem select_optimal_witness:
  "HealthAwareSelector_select (HealthAwareSelector_new ScoreWeights_default)
     [sample_node ''a'' Healthy 3 5, sample_node ''b'' Healthy 3 5, sample_node ''c'' Draining 0 0] =
   Some (sample_node ''b'' Healthy 3 5)"
proof -
  let ?ns = "[sample_node ''a'' Healthy 3 5, sample_node ''b'' Healthy 3 5, sample_node ''c'' Draining 0 0]"
  have "filter is_selectable ?ns = [sample_node ''a'' Healthy 3 5] @ sample_node ''b'' Healthy 3 5 # []"
    by (simp add: is_selectable_def sample_node_def)
  moreover have "score (sample_node ''a'' Healthy 3 5) w \<le> score (sample_node ''b'' Healthy 3 5) w" for w
    by (simp add: score_def is_selectable_def capacity_factor_def available_capacity_def
        bandwidth_factor_def bandwidth_utilization_def sample_node_def)
  ultimately show ?thesis
    by (subst select_optimal [THEN conjunct1])
      (intro exI [of _ "[sample_node ''a'' Healthy 3 5]"] exI [of _ "[]"], simp)
qed

text \<open>
  C20. The score never punishes an advantage: with non-negative weights, a selectable node that is at
  least as healthy, no more loaded and no slower than another of the same capacity never scores lower, whatever the
  rounding of the double-precision products.
\<close>

theorem score_monotone:
  assumes "weights_ok w" "is_selectable m" "is_selectable n"
    and "nd_state m = nd_state n \<or> nd_state m = Healthy"
    and "nd_max_connections m = nd_max_connections n"
    and "nd_active_connections m \<le> nd_active_connections n"
    and "nd_latency_ms m \<le> nd_latency_ms n"
  shows "score n w \<le> score m w"
proof -
  have "health_factor (nd_state n) \<le> health_factor (nd_state m)"
    using assms(2-4) by (auto simp: is_selectable_def)
  then show ?thesis using assms by (intro score_mono) simp_all
qed

theorem score_monotone_witness:
  "score (sample_node ''a'' Degraded 9 7) ScoreWeights_default \<le>
   score (sample_node ''b'' Healthy 3 5) ScoreWeights_default"
  by (rule score_monotone) (simp_all add: sample_node_def is_selectable_def)

text \<open>
  With the default weights every selectable node scores between 50 and 800, so a real
  candidate always beats the score 0 of the others, and a Healthy node scores exactly twice what
  it would score if Degraded.
\<close>

theorem score_default_range:
  assumes "is_selectable n"
  shows "50 \<le> score n ScoreWeights_default \<and> score n ScoreWeights_default \<le> 800 \<and>
    score (n\<lparr>nd_state := Healthy\<rparr>) ScoreWeights_default =
      2 * score (n\<lparr>nd_state := Degraded\<rparr>) ScoreWeights_default"
proof -
  have "capacity_factor (n\<lparr>nd_state := s\<rparr>) = capacity_factor n"
    "bandwidth_factor (n\<lparr>nd_state := s\<rparr>) = bandwidth_factor n" for s
    by (simp_all add: capacity_factor_def available_capacity_def bandwidth_factor_def bandwidth_utilization_def)
  then show ?thesis
    using score_default_bounds [OF assms] capacity_factor_bounds(1) [of n] latency_factor_bounds(1) [of "nd_latency_ms n"]
      bandwidth_factor_bounds(1) [of n]
    by (simp add: score_eq is_selectable_def score_of_health_double)
qed

theorem score_default_range_witness:
  "50 \<le> score (sample_node ''a'' Degraded 9 7) ScoreWeights_default"
  using score_default_range [of "sample_node ''a'' Degraded 9 7"]
  by (simp add: sample_node_def is_selectable_def)

end
