(* ===== verification/CP_Bandwidth.thy ===== *)
theory CP_Bandwidth
  imports CP_Model "HOL-Library.Multiset"
begin

text \<open>
  Bandwidth allocation, from \<^verbatim>\<open>bandwidth.rs\<close>. An \<^verbatim>\<open>Arc<AtomicU64>\<close> is an index into a
  heap of counters, so an allocator, its clones and its guards share one counter. The
  reservation loop is modelled twice: sequentially, with the spurious failures of
  \<^verbatim>\<open>compare_exchange_weak\<close> as a parameter, and as a step relation in which any number of
  threads interleave load, compare-exchange and guard drop on one counter. The token
  bucket follows, with the clock as a parameter.
\<close>

section \<open>Allocator and guards\<close>

type_synonym counters = "u64 list"

record BandwidthAllocator =
  ba_limit :: u64
  ba_reserved :: nat

record BandwidthGuard =
  bg_reserved :: nat
  bg_rate :: u64

definition BandwidthAllocator_new :: "u64 \<Rightarrow> counters \<Rightarrow> BandwidthAllocator \<times> counters" where
  "BandwidthAllocator_new limit_bytes_per_sec h =
     (\<lparr>ba_limit = limit_bytes_per_sec, ba_reserved = length h\<rparr>, h @ [0])"

text \<open>
  \<open>try_reserve_loop\<close> is the loop as written: \<open>spurious i\<close> says whether the \<open>i\<close>th
  compare-exchange fails although the counter has not moved. \<^const>\<open>None\<close> is "does not return".
\<close>

partial_function (option) try_reserve_loop ::
  "(nat \<Rightarrow> bool) \<Rightarrow> nat \<Rightarrow> BandwidthAllocator \<Rightarrow> u64 \<Rightarrow> counters \<Rightarrow> (BandwidthGuard option \<times> counters) option"
where
  "try_reserve_loop spurious i a rate h =
     (let current = h ! ba_reserved a in
      case checked_add current rate of
        None \<Rightarrow> Some (None, h)
      | Some next \<Rightarrow>
          if next > ba_limit a then Some (None, h)
          else if spurious i then try_reserve_loop spurious (Suc i) a rate h
          else Some (Some \<lparr>bg_reserved = ba_reserved a, bg_rate = rate\<rparr>, h[ba_reserved a := next]))"

text \<open>One uncontended pass of the loop.\<close>

definition try_reserve :: "BandwidthAllocator \<Rightarrow> u64 \<Rightarrow> counters \<Rightarrow> BandwidthGuard option \<times> counters" where
  "try_reserve a rate h =
     (let current = h ! ba_reserved a in
      case checked_add current rate of
        None \<Rightarrow> (None, h)
      | Some next \<Rightarrow>
          if next > ba_limit a then (None, h)
          else (Some \<lparr>bg_reserved = ba_reserved a, bg_rate = rate\<rparr>, h[ba_reserved a := next]))"

definition BandwidthAllocator_reserved :: "BandwidthAllocator \<Rightarrow> counters \<Rightarrow> u64" where
  "BandwidthAllocator_reserved a h = h ! ba_reserved a"

definition BandwidthAllocator_available :: "BandwidthAllocator \<Rightarrow> counters \<Rightarrow> u64" where
  "BandwidthAllocator_available a h = saturating_sub (ba_limit a) (h ! ba_reserved a)"

definition BandwidthAllocator_utilization :: "BandwidthAllocator \<Rightarrow> counters \<Rightarrow> rat" where
  "BandwidthAllocator_utilization a h =
     (if ba_limit a = 0 then 1
      else f64_clamp 0 1
        (f64_div (f64_of_u64 (BandwidthAllocator_reserved a h)) (f64_of_u64 (ba_limit a))))"

text \<open>\<^verbatim>\<open>Drop for BandwidthGuard\<close>: a wrapping \<^verbatim>\<open>fetch_sub\<close>.\<close>

definition BandwidthGuard_drop :: "BandwidthGuard \<Rightarrow> counters \<Rightarrow> counters" where
  "BandwidthGuard_drop g h = h[bg_reserved g := h ! bg_reserved g - bg_rate g]"

lemma try_reserve_loop_spurious:
  assumes "\<not> spurious k" "i \<le> k"
  shows "try_reserve_loop spurious i a rate h = Some (try_reserve a rate h)"
  using assms(2)
proof (induction i rule: inc_induct)
  case base
  then show ?case
    using assms(1) by (subst try_reserve_loop.simps) (auto simp: try_reserve_def Let_def split: option.split)
next
  case (step i)
  then show ?case
    by (subst try_reserve_loop.simps) (auto simp: try_reserve_def Let_def split: option.split)
qed

lemma checked_add_None: "checked_add a b = None \<longleftrightarrow> 2 ^ LENGTH('w) \<le> unat a + unat (b :: 'w::len word)"
  by (simp add: checked_add_def not_less)

lemma try_reserve_cases:
  assumes "ba_reserved a < length h"
  shows "try_reserve a rate h =
    (if unat (h ! ba_reserved a) + unat rate \<le> unat (ba_limit a)
     then (Some \<lparr>bg_reserved = ba_reserved a, bg_rate = rate\<rparr>,
           h[ba_reserved a := h ! ba_reserved a + rate])
     else (None, h))"
proof -
  have lim: "unat (ba_limit a) < 2 ^ LENGTH(64)" by (rule unsigned_less)
  show ?thesis
  proof (cases "checked_add (h ! ba_reserved a) rate")
    case None
    then have "unat (ba_limit a) < unat (h ! ba_reserved a) + unat rate"
      using lim unfolding checked_add_None by linarith
    then show ?thesis by (simp add: try_reserve_def None)
  next
    case (Some n)
    then have n: "n = h ! ba_reserved a + rate" "unat n = unat (h ! ba_reserved a) + unat rate"
      using checked_add_Some [OF Some] by (auto simp: checked_add_def split: if_splits)
    show ?thesis unfolding try_reserve_def Let_def Some n(2) [symmetric] n(1) [symmetric]
      by (simp add: word_less_nat_alt)
  qed
qed

lemma try_reserve_drop:
  assumes "ba_reserved a < length h" "try_reserve a rate h = (Some g, h')"
  shows "BandwidthGuard_drop g h' = h"
  using assms by (auto simp: try_reserve_cases BandwidthGuard_drop_def split: if_splits)

section \<open>Interleaved reservations on one counter\<close>

text \<open>
  A thread is outside \<^verbatim>\<open>try_reserve\<close>, at the head of its loop, or between the load and
  the compare-exchange. \<open>bw_guards\<close> holds the rate of every guard that has been handed
  out and not dropped.
\<close>

datatype reserve_pc = Outside | Head u64 | Loaded u64 u64

record bw_state =
  bw_limit :: u64
  bw_counter :: u64
  bw_pcs :: "nat \<Rightarrow> reserve_pc"
  bw_guards :: "u64 multiset"

definition bw_init :: "u64 \<Rightarrow> bw_state" where
  "bw_init limit = \<lparr>bw_limit = limit, bw_counter = 0, bw_pcs = (\<lambda>_. Outside), bw_guards = {#}\<rparr>"

inductive bw_step :: "bw_state \<Rightarrow> bw_state \<Rightarrow> bool" where
  bw_call: "bw_pcs s t = Outside \<Longrightarrow> bw_step s (s\<lparr>bw_pcs := (bw_pcs s)(t := Head rate)\<rparr>)"
| bw_load: "bw_pcs s t = Head rate \<Longrightarrow>
    bw_step s (s\<lparr>bw_pcs := (bw_pcs s)(t := Loaded rate (bw_counter s))\<rparr>)"
| bw_overflow: "bw_pcs s t = Loaded rate current \<Longrightarrow> checked_add current rate = None \<Longrightarrow>
    bw_step s (s\<lparr>bw_pcs := (bw_pcs s)(t := Outside)\<rparr>)"
| bw_over_limit: "bw_pcs s t = Loaded rate current \<Longrightarrow> checked_add current rate = Some next \<Longrightarrow>
    next > bw_limit s \<Longrightarrow> bw_step s (s\<lparr>bw_pcs := (bw_pcs s)(t := Outside)\<rparr>)"
| bw_cas_ok: "bw_pcs s t = Loaded rate current \<Longrightarrow> checked_add current rate = Some next \<Longrightarrow>
    next \<le> bw_limit s \<Longrightarrow> bw_counter s = current \<Longrightarrow>
    bw_step s (s\<lparr>bw_pcs := (bw_pcs s)(t := Outside), bw_counter := next,
                 bw_guards := add_mset rate (bw_guards s)\<rparr>)"
| bw_cas_fail: "bw_pcs s t = Loaded rate current \<Longrightarrow> checked_add current rate = Some next \<Longrightarrow>
    next \<le> bw_limit s \<Longrightarrow> bw_step s (s\<lparr>bw_pcs := (bw_pcs s)(t := Head rate)\<rparr>)"
| bw_drop: "rate \<in># bw_guards s \<Longrightarrow>
    bw_step s (s\<lparr>bw_counter := bw_counter s - rate, bw_guards := bw_guards s - {#rate#}\<rparr>)"

inductive bw_reachable :: "u64 \<Rightarrow> bw_state \<Rightarrow> bool" for limit where
  bw_start: "bw_reachable limit (bw_init limit)"
| bw_next: "bw_reachable limit s \<Longrightarrow> bw_step s t \<Longrightarrow> bw_reachable limit t"

definition guards_sum :: "u64 multiset \<Rightarrow> nat" where
  "guards_sum M = sum_mset (image_mset unat M)"

definition bw_inv :: "bw_state \<Rightarrow> bool" where
  "bw_inv s \<longleftrightarrow> unat (bw_counter s) = guards_sum (bw_guards s) \<and> guards_sum (bw_guards s) \<le> unat (bw_limit s)"

lemma guards_sum_add [simp]: "guards_sum (add_mset r M) = unat r + guards_sum M"
  by (simp add: guards_sum_def)

lemma guards_sum_remove: "r \<in># M \<Longrightarrow> guards_sum M = unat r + guards_sum (M - {#r#})"
  by (metis guards_sum_add insert_DiffM)

lemma bw_inv_init: "bw_inv (bw_init limit)"
  by (simp add: bw_inv_def bw_init_def guards_sum_def)

lemma bw_step_limit: "bw_step s t \<Longrightarrow> bw_limit t = bw_limit s"
  by (induction rule: bw_step.induct) simp_all

lemma bw_step_inv: "bw_step s t \<Longrightarrow> bw_inv s \<Longrightarrow> bw_inv t"
proof (induction rule: bw_step.induct)
  case (bw_cas_ok s t rate current new)
  then show ?case using checked_add_Some [of current rate new]
    by (simp add: bw_inv_def word_le_nat_alt)
next
  case (bw_drop rate s)
  then have "guards_sum (bw_guards s) = unat rate + guards_sum (bw_guards s - {#rate#})"
    by (intro guards_sum_remove)
  then show ?case using bw_drop by (simp add: bw_inv_def unat_sub word_le_nat_alt)
qed (simp_all add: bw_inv_def)

lemma bw_reachable_inv: "bw_reachable limit s \<Longrightarrow> bw_inv s \<and> bw_limit s = limit"
proof (induction rule: bw_reachable.induct)
  case bw_start
  then show ?case using bw_inv_init by (simp add: bw_init_def)
next
  case (bw_next s s')
  then show ?case using bw_step_inv bw_step_limit by simp
qed

section \<open>The token bucket\<close>


























section \<open>Properties\<close>

text \<open>
  C3. No interleaving of any number of threads that call \<^verbatim>\<open>try_reserve\<close> and drop
  guards over-commits a link: in every reachable state the shared counter is exactly the sum of the rates of the
  outstanding guards, and that sum is at most the limit. So the wrapping subtraction of
  \<^verbatim>\<open>Drop\<close> never wraps.
\<close>

theorem reservations_within_limit:
  assumes "bw_reachable limit s"
  shows "unat (bw_counter s) = guards_sum (bw_guards s) \<and> guards_sum (bw_guards s) \<le> unat limit"
  using bw_reachable_inv [OF assms] by (auto simp: bw_inv_def)

theorem reservations_within_limit_witness:
  "\<exists>s. bw_reachable 100 s \<and> bw_guards s = {#60#} \<and> unat (bw_counter s) = guards_sum (bw_guards s)"
proof -
  let ?i = "bw_init 100"
  let ?a = "?i\<lparr>bw_pcs := (bw_pcs ?i)(0 := Head 60)\<rparr>"
  let ?b = "?a\<lparr>bw_pcs := (bw_pcs ?a)(0 := Loaded 60 (bw_counter ?a))\<rparr>"
  let ?c = "?b\<lparr>bw_pcs := (bw_pcs ?b)(0 := Outside), bw_counter := 60, bw_guards := add_mset 60 (bw_guards ?b)\<rparr>"
  have "bw_step ?i ?a" by (rule bw_call) (simp add: bw_init_def)
  moreover have "bw_step ?a ?b" by (rule bw_load) simp
  moreover have "bw_step ?b ?c"
    by (rule bw_cas_ok [where current = 0]) (simp_all add: bw_init_def checked_add_def)
  ultimately have c: "bw_reachable 100 ?c" by (meson bw_start bw_next)
  with reservations_within_limit [OF c] show ?thesis by (intro exI [of _ ?c]) (simp add: bw_init_def)
qed

text \<open>
  C19. A reservation that runs undisturbed is decided by exact arithmetic: it succeeds precisely
  when the counter plus the rate, as unbounded integers, stays within the limit; then the counter grows by the
  rate and dropping the guard restores it; otherwise nothing changes. The retry loop
  returns that result as soon as one compare-exchange does not fail spuriously.
\<close>

theorem try_reserve_exact:
  assumes "ba_reserved a < length h" and "\<not> spurious k"
  shows "\<exists>g h'. try_reserve_loop spurious 0 a rate h = Some (g, h') \<and>
    (g \<noteq> None \<longleftrightarrow> unat (BandwidthAllocator_reserved a h) + unat rate \<le> unat (ba_limit a)) \<and>
    (case g of
       None \<Rightarrow> h' = h
     | Some guard \<Rightarrow>
         unat (BandwidthAllocator_reserved a h') = unat (BandwidthAllocator_reserved a h) + unat rate \<and>
         BandwidthGuard_drop guard h' = h)"
proof -
  obtain g h' where r: "try_reserve a rate h = (g, h')" by fastforce
  have "try_reserve_loop spurious 0 a rate h = Some (g, h')"
    using try_reserve_loop_spurious [of spurious k 0 a rate h] assms(2) r by simp
  moreover have "unat (BandwidthAllocator_reserved a h') = unat (BandwidthAllocator_reserved a h) + unat rate"
    if "g = Some x" for x
    using r that assms(1) unsigned_less [of "ba_limit a", where 'a = nat]
    by (auto simp: try_reserve_cases BandwidthAllocator_reserved_def unat_word_ariths split: if_splits)
  moreover have "BandwidthGuard_drop x h' = h" if "g = Some x" for x
    using try_reserve_drop [OF assms(1)] r that by simp
  ultimately show ?thesis
    using r assms(1)
    by (auto simp: try_reserve_cases BandwidthAllocator_reserved_def split: if_splits option.split)
qed

theorem try_reserve_exact_witness:
  "\<exists>g h'. try_reserve_loop (\<lambda>i. i < 3) 0 \<lparr>ba_limit = 100, ba_reserved = 0\<rparr> 60 [40] = Some (g, h') \<and> g \<noteq> None"
  using try_reserve_exact [of "\<lparr>ba_limit = 100, ba_reserved = 0\<rparr>" "[40]" "\<lambda>i. i < 3" 3 60]
  by (auto simp: BandwidthAllocator_reserved_def)



end
