(* ===== verification/CP_Service.thy ===== *)
theory CP_Service
  imports CP_Registry CP_Routing CP_Bandwidth
begin

text \<open>
  The control plane service, from \<^verbatim>\<open>service.rs\<close>, with the per-node gauges of
  \<^verbatim>\<open>metrics.rs\<close>. The service owns a repository (any implementation of the trait), the
  health policy, the score weights and the lazily created bandwidth allocators; its
  mutable state is the repository's own state, the gauges, the allocator map and the
  shared counters. Every operation is the source's sequence of repository calls.
\<close>

section \<open>State\<close>

type_synonym gauges = "string \<times> string \<rightharpoonup> rat"

record 's CpState =
  cp_db :: 's
  cp_gauges :: gauges
  cp_allocators :: "string \<rightharpoonup> BandwidthAllocator"
  cp_counters :: counters

record 's ControlPlaneService =
  svc_repo :: "'s NodeRepository"
  svc_policy :: HealthPolicy
  svc_weights :: ScoreWeights

record SelectedNode =
  sel_node :: Node
  sel_guard :: BandwidthGuard

definition ControlPlaneService_new :: "'s NodeRepository \<Rightarrow> HealthPolicy \<Rightarrow> 's ControlPlaneService" where
  "ControlPlaneService_new repo policy =
     \<lparr>svc_repo = repo, svc_policy = policy, svc_weights = ScoreWeights_default\<rparr>"

definition from_repo_sql :: "CpEnv \<Rightarrow> HealthPolicy \<Rightarrow> Db ControlPlaneService" where
  "from_repo_sql e policy = ControlPlaneService_new (SqliteNodeRepository e) policy"

text \<open>The state a fresh service starts with: no allocators, nothing recorded.\<close>

definition service_start :: "'s \<Rightarrow> 's CpState" where
  "service_start db = \<lparr>cp_db = db, cp_gauges = Map.empty, cp_allocators = Map.empty, cp_counters = []\<rparr>"

section \<open>Metrics\<close>

fun health_gauge_value :: "NodeState \<Rightarrow> rat" where
  "health_gauge_value Healthy = 1"
| "health_gauge_value Degraded = 1 / 2"
| "health_gauge_value _ = 0"

definition record_node :: "Node \<Rightarrow> gauges \<Rightarrow> gauges" where
  "record_node n g = g(
     (''proxy_node_health'', nd_id n) \<mapsto> health_gauge_value (nd_state n),
     (''proxy_node_latency_ms'', nd_id n) \<mapsto> f64_of_u32 (nd_latency_ms n),
     (''proxy_bandwidth_utilization'', nd_id n) \<mapsto> bandwidth_utilization n)"

definition publish :: "Node \<Rightarrow> ('s CpState, RepoError, unit) io" where
  "publish n = io_modify (\<lambda>st. st\<lparr>cp_gauges := record_node n (cp_gauges st)\<rparr>)"

section \<open>Operations\<close>

definition with_repo :: "('s, RepoError, 'a) io \<Rightarrow> ('s CpState, RepoError, 'a) io" where
  "with_repo m st = (case m (cp_db st) of (r, db) \<Rightarrow> (r, st\<lparr>cp_db := db\<rparr>))"

definition service_allocator :: "string \<Rightarrow> u64 \<Rightarrow> 's CpState \<Rightarrow> BandwidthAllocator \<times> 's CpState" where
  "service_allocator node_id limit st =
     (case cp_allocators st node_id of
        Some a \<Rightarrow> (a, st)
      | None \<Rightarrow>
          let (a, h) = BandwidthAllocator_new limit (cp_counters st)
          in (a, st\<lparr>cp_allocators := (cp_allocators st)(node_id \<mapsto> a), cp_counters := h\<rparr>))"

definition service_register ::
  "'s ControlPlaneService \<Rightarrow> RegisterRequest \<Rightarrow> ('s CpState, RepoError, Node) io" where
  "service_register svc req =
     io_bind (with_repo (repo_register (svc_repo svc) req)) (\<lambda>_.
     io_bind (with_repo (repo_get (svc_repo svc) (rr_node_id req))) (\<lambda>found.
     io_bind (io_lift (ok_or NodeDisappeared found)) (\<lambda>node.
     io_bind (publish node) (\<lambda>_. io_return node))))"

definition service_heartbeat ::
  "'s ControlPlaneService \<Rightarrow> Heartbeat \<Rightarrow> ('s CpState, RepoError, unit) io" where
  "service_heartbeat svc hb =
     io_bind (with_repo (repo_get (svc_repo svc) (hb_node_id hb))) (\<lambda>current.
       case current of
         None \<Rightarrow> io_return ()
       | Some n \<Rightarrow>
           io_bind (with_repo (repo_apply_heartbeat (svc_repo svc) hb)) (\<lambda>_.
           let next = reclassify_after_heartbeat (nd_state n) (hb_active_connections hb)
                        (nd_max_connections n) (svc_policy svc) in
           io_bind (if next \<noteq> nd_state n then with_repo (repo_set_state (svc_repo svc) (hb_node_id hb) next)
                    else io_return ()) (\<lambda>_.
           io_bind (with_repo (repo_get (svc_repo svc) (hb_node_id hb))) (\<lambda>again.
             case again of None \<Rightarrow> io_return () | Some n \<Rightarrow> publish n))))"

definition service_list :: "'s ControlPlaneService \<Rightarrow> ('s CpState, RepoError, Node list) io" where
  "service_list svc =
     io_bind (with_repo (repo_list (svc_repo svc))) (\<lambda>nodes.
     io_bind (io_modify (\<lambda>st. st\<lparr>cp_gauges := fold record_node nodes (cp_gauges st)\<rparr>)) (\<lambda>_.
       io_return nodes))"

definition service_get ::
  "'s ControlPlaneService \<Rightarrow> string \<Rightarrow> ('s CpState, RepoError, Node option) io" where
  "service_get svc i =
     io_bind (with_repo (repo_get (svc_repo svc) i)) (\<lambda>n.
     io_bind (case n of None \<Rightarrow> io_return () | Some n \<Rightarrow> publish n) (\<lambda>_. io_return n))"

definition service_drain ::
  "'s ControlPlaneService \<Rightarrow> string \<Rightarrow> ('s CpState, RepoError, Node option) io" where
  "service_drain svc i =
     io_bind (with_repo (repo_set_draining (svc_repo svc) i)) (\<lambda>_.
     io_bind (with_repo (repo_get (svc_repo svc) i)) (\<lambda>n.
     io_bind (case n of None \<Rightarrow> io_return () | Some n \<Rightarrow> publish n) (\<lambda>_. io_return n)))"

definition service_select :: "'s ControlPlaneService \<Rightarrow> ('s CpState, RepoError, Node option) io" where
  "service_select svc =
     io_bind (with_repo (repo_list (svc_repo svc))) (\<lambda>nodes.
       let eligible = filter is_selectable nodes in
       io_return (HealthAwareSelector_select (HealthAwareSelector_new (svc_weights svc)) eligible))"

definition bandwidth_share :: "Node \<Rightarrow> u64" where
  "bandwidth_share n =
     (let slots = ucast (max (nd_max_connections n) 1) in max (nd_bandwidth_limit n div slots) 1)"

fun reserve_first :: "Node list \<Rightarrow> 's CpState \<Rightarrow> SelectedNode option \<times> 's CpState" where
  "reserve_first [] st = (None, st)"
| "reserve_first (node # rest) st =
     (case service_allocator (nd_id node) (nd_bandwidth_limit node) st of (alloc, st) \<Rightarrow>
      case try_reserve alloc (bandwidth_share node) (cp_counters st) of
        (Some guard, h) \<Rightarrow> (Some \<lparr>sel_node = node, sel_guard = guard\<rparr>, st\<lparr>cp_counters := h\<rparr>)
      | (None, h) \<Rightarrow> reserve_first rest (st\<lparr>cp_counters := h\<rparr>))"

definition service_select_with_bandwidth ::
  "'s ControlPlaneService \<Rightarrow> ('s CpState, RepoError, SelectedNode option) io" where
  "service_select_with_bandwidth svc =
     io_bind (with_repo (repo_list (svc_repo svc))) (\<lambda>nodes.
       let eligible = sort_key (\<lambda>n. - score n (svc_weights svc)) (filter is_selectable nodes) in
       (\<lambda>st. case reserve_first eligible st of (r, st) \<Rightarrow> (Inr r, st)))"

definition release_guard :: "BandwidthGuard \<Rightarrow> 's CpState \<Rightarrow> 's CpState" where
  "release_guard g st = st\<lparr>cp_counters := BandwidthGuard_drop g (cp_counters st)\<rparr>"

definition service_adjust_active ::
  "'s ControlPlaneService \<Rightarrow> string \<Rightarrow> i64 \<Rightarrow> ('s CpState, RepoError, unit) io" where
  "service_adjust_active svc i delta = with_repo (repo_adjust_active (svc_repo svc) i delta)"

definition sweep_hits :: "HealthPolicy \<Rightarrow> DateTime \<Rightarrow> Node \<Rightarrow> bool" where
  "sweep_hits policy now n \<longleftrightarrow>
     nd_state n \<in> {Starting, Healthy, Degraded} \<and> is_stale (nd_last_heartbeat n) now policy"

fun sweep_nodes ::
  "'s ControlPlaneService \<Rightarrow> DateTime \<Rightarrow> Node list \<Rightarrow> nat \<Rightarrow> ('s CpState, RepoError, nat) io" where
  "sweep_nodes svc now [] marked = io_return marked"
| "sweep_nodes svc now (n # ns) marked =
     (if sweep_hits (svc_policy svc) now n
      then io_bind (with_repo (repo_mark_offline (svc_repo svc) (nd_id n))) (\<lambda>_.
             sweep_nodes svc now ns (marked + 1))
      else sweep_nodes svc now ns marked)"

definition mark_stale_offline ::
  "'s ControlPlaneService \<Rightarrow> ('s \<Rightarrow> DateTime \<times> 's) \<Rightarrow> ('s CpState, RepoError, nat) io" where
  "mark_stale_offline svc clock =
     io_bind (with_repo (\<lambda>db. case clock db of (now, db) \<Rightarrow> (Inr now, db))) (\<lambda>now.
     io_bind (with_repo (repo_list (svc_repo svc))) (\<lambda>nodes.
       sweep_nodes svc now nodes 0))"

section \<open>What the operations do to the registry\<close>

definition spec_heartbeat :: "HealthPolicy \<Rightarrow> Heartbeat \<Rightarrow> DateTime \<Rightarrow> DateTime \<Rightarrow> Node \<Rightarrow> Node" where
  "spec_heartbeat policy hb now later n =
     (let next = reclassify_after_heartbeat (nd_state n) (hb_active_connections hb) (nd_max_connections n) policy
      in if next \<noteq> nd_state n then state_node next later (beat_node hb now n) else beat_node hb now n)"

text \<open>The effect of a sweep: some of the nodes that satisfy \<open>hit\<close> have gone offline.\<close>

definition swept :: "(Node \<Rightarrow> bool) \<Rightarrow> registry \<Rightarrow> registry \<Rightarrow> bool" where
  "swept hit N N' \<longleftrightarrow>
     (\<forall>i. N' i = N i \<or> (\<exists>n t. N i = Some n \<and> hit n \<and> N' i = Some (state_node Offline t n)))"

lemma swept_refl [simp]: "swept hit N N"
  by (simp add: swept_def)

lemma swept_step:
  assumes "swept hit (N(i \<mapsto> state_node Offline t n)) N'" "N i = Some n" "hit n"
    and "\<And>m. \<not> hit (state_node Offline t m)"
  shows "swept hit N N' \<and> N' i = Some (state_node Offline t n)"
proof -
  have "N' i = Some (state_node Offline t n)"
    using assms(1,4) unfolding swept_def by (metis fun_upd_same option.inject)
  moreover have "N' j = N j \<or> (\<exists>m t. N j = Some m \<and> hit m \<and> N' j = Some (state_node Offline t m))"
    if "j \<noteq> i" for j
    using assms(1) that unfolding swept_def by (metis fun_upd_other)
  ultimately show ?thesis using assms(2,3) unfolding swept_def by metis
qed

lemma sweep_hits_offline [simp]: "\<not> sweep_hits p now (state_node Offline t n)"
  by (simp add: sweep_hits_def state_node_def)

lemma with_repo_eq:
  "with_repo m st = (r, st') \<longleftrightarrow> (\<exists>db. m (cp_db st) = (r, db) \<and> st' = st\<lparr>cp_db := db\<rparr>)"
  by (auto simp: with_repo_def split: prod.splits)

lemma publish_apply [simp]: "publish n st = (Inr (), st\<lparr>cp_gauges := record_node n (cp_gauges st)\<rparr>)"
  by (simp add: publish_def)

lemma spec_update_None [simp]: "N i = None \<Longrightarrow> spec_update i f N = N"
  by (auto simp: spec_update_def)

lemma spec_update_apply [simp]: "spec_update i f N j = (if j = i then map_option f (N i) else N j)"
  by (simp add: spec_update_def)

context node_repository
begin

lemma with_repo_reads:
  assumes "op_reads I nodes stamp op g" "I (cp_db st)" "with_repo op st = (r, st')"
  shows "I (cp_db st') \<and> nodes (cp_db st') = nodes (cp_db st) \<and> stamp (cp_db st') = stamp (cp_db st) \<and>
    (\<forall>x. r = Inr x \<longrightarrow> x = g (nodes (cp_db st))) \<and> cp_gauges st' = cp_gauges st \<and>
    cp_allocators st' = cp_allocators st \<and> cp_counters st' = cp_counters st"
proof -
  obtain db where db: "op (cp_db st) = (r, db)" "st' = st\<lparr>cp_db := db\<rparr>"
    using assms(3) by (auto simp: with_repo_eq)
  have "I db \<and> nodes db = nodes (cp_db st) \<and> stamp db = stamp (cp_db st) \<and>
      (\<forall>x. r = Inr x \<longrightarrow> x = g (nodes (cp_db st)))"
    using assms(1,2) db(1) unfolding op_reads_def by blast
  then show ?thesis by (simp add: db(2))
qed

lemma with_repo_updates:
  assumes "op_updates I nodes stamp pre op f" "I (cp_db st)" "pre (nodes (cp_db st))"
    and "with_repo op st = (r, st')"
  shows "I (cp_db st') \<and> cp_gauges st' = cp_gauges st \<and>
    nodes (cp_db st') = (case r of Inl _ \<Rightarrow> nodes (cp_db st) | Inr _ \<Rightarrow> f (stamp (cp_db st)) (nodes (cp_db st))) \<and>
    cp_allocators st' = cp_allocators st \<and> cp_counters st' = cp_counters st"
proof -
  obtain db where db: "op (cp_db st) = (r, db)" "st' = st\<lparr>cp_db := db\<rparr>"
    using assms(4) by (auto simp: with_repo_eq)
  have "I db \<and> nodes db = (case r of Inl _ \<Rightarrow> nodes (cp_db st) | Inr _ \<Rightarrow> f (stamp (cp_db st)) (nodes (cp_db st)))"
    using assms(1-3) db(1) unfolding op_updates_def by blast
  then show ?thesis by (simp add: db(2))
qed

lemma service_register_ok:
  assumes st: "I (cp_db st)" and repo: "svc_repo svc = repo"
    and run: "service_register svc req st = (Inr n, st')"
  shows "I (cp_db st') \<and>
    nodes (cp_db st') = spec_register req (stamp (cp_db st)) (nodes (cp_db st)) \<and>
    nodes (cp_db st') (rr_node_id req) = Some n \<and> cp_gauges st' = record_node n (cp_gauges st)"
proof -
  from run obtain u s1 s2 where 1: "with_repo (repo_register repo req) st = (Inr u, s1)"
    and 2: "with_repo (repo_get repo (rr_node_id req)) s1 = (Inr (Some n), s2)"
    and 3: "st' = s2\<lparr>cp_gauges := record_node n (cp_gauges s2)\<rparr>"
    by (auto simp: service_register_def repo io_bind_eq_Inr ok_or_Inr)
  note a = with_repo_updates [OF register_law st TrueI 1]
  note b = with_repo_reads [OF get_law conjunct1 [OF a] 2]
  from a b 3 show ?thesis by auto
qed

lemma service_register_err:
  assumes st: "I (cp_db st)" and repo: "svc_repo svc = repo"
    and run: "service_register svc req st = (Inl e, st')"
  shows "I (cp_db st') \<and> cp_gauges st' = cp_gauges st \<and>
    nodes (cp_db st') \<in> {nodes (cp_db st), spec_register req (stamp (cp_db st)) (nodes (cp_db st))}"
proof -
  from run consider "with_repo (repo_register repo req) st = (Inl e, st')"
    | u s1 r where "with_repo (repo_register repo req) st = (Inr u, s1)"
        "with_repo (repo_get repo (rr_node_id req)) s1 = (r, st')"
    by (auto simp: service_register_def repo io_bind_eq_Inr io_bind_eq_Inl)
  then show ?thesis
  proof cases
    case 1
    then show ?thesis using with_repo_updates [OF register_law st TrueI 1] by simp
  next
    case 2
    note a = with_repo_updates [OF register_law st TrueI 2(1)]
    from a with_repo_reads [OF get_law conjunct1 [OF a] 2(2)] show ?thesis by simp
  qed
qed

lemma service_heartbeat_unknown:
  assumes "I (cp_db st)" "svc_repo svc = repo" "nodes (cp_db st) (hb_node_id hb) = None"
    and "service_heartbeat svc hb st = (r, st')"
  shows "nodes (cp_db st') = nodes (cp_db st) \<and> cp_gauges st' = cp_gauges st \<and> I (cp_db st')"
proof -
  obtain g s1 where 1: "with_repo (repo_get repo (hb_node_id hb)) st = (g, s1)" by fastforce
  note a = with_repo_reads [OF get_law assms(1) 1]
  have "st' = s1"
  proof (cases g)
    case (Inl e)
    then show ?thesis using assms(4) 1 by (simp add: service_heartbeat_def assms(2) io_bind_Inl)
  next
    case (Inr x)
    then have "x = None" using a assms(3) by simp
    then show ?thesis using assms(4) 1 Inr by (simp add: service_heartbeat_def assms(2) io_bind_Inr)
  qed
  with a show ?thesis by simp
qed

lemma service_heartbeat_ok:
  assumes st: "I (cp_db st)" and repo: "svc_repo svc = repo" and n: "nodes (cp_db st) (hb_node_id hb) = Some n"
    and run: "service_heartbeat svc hb st = (Inr (), st')"
  shows "\<exists>later. I (cp_db st') \<and>
    nodes (cp_db st') = (nodes (cp_db st))(hb_node_id hb \<mapsto>
      spec_heartbeat (svc_policy svc) hb (stamp (cp_db st)) later n) \<and>
    cp_gauges st' = record_node (spec_heartbeat (svc_policy svc) hb (stamp (cp_db st)) later n) (cp_gauges st)"
proof -
  let ?i = "hb_node_id hb"
  let ?next = "reclassify_after_heartbeat (nd_state n) (hb_active_connections hb) (nd_max_connections n) (svc_policy svc)"
  let ?set = "if ?next \<noteq> nd_state n then with_repo (repo_set_state repo ?i ?next) else io_return ()"
  obtain g s1 where 1: "with_repo (repo_get repo ?i) st = (g, s1)" by fastforce
  note a = with_repo_reads [OF get_law st 1]
  with run 1 have "g = Inr (Some n)"
    by (cases g) (auto simp: service_heartbeat_def repo io_bind_def n)
  with run 1 obtain u s2 v s3 x s4 where 2: "with_repo (repo_apply_heartbeat repo hb) s1 = (Inr u, s2)"
    and 3: "?set s2 = (Inr v, s3)" and 4: "with_repo (repo_get repo ?i) s3 = (Inr x, s4)"
    and 5: "(case x of None \<Rightarrow> io_return () | Some n \<Rightarrow> publish n) s4 = (Inr (), st')"
    by (auto simp: service_heartbeat_def repo io_bind_Inr io_bind_eq_Inr Let_def split del: if_split cong: if_cong)
  note b = with_repo_updates [OF heartbeat_law conjunct1 [OF a] TrueI 2]
  have c: "I (cp_db s3) \<and> cp_gauges s3 = cp_gauges s2 \<and> nodes (cp_db s3) =
      (nodes (cp_db st))(?i \<mapsto> spec_heartbeat (svc_policy svc) hb (stamp (cp_db st)) (stamp (cp_db s2)) n)"
    using with_repo_updates [OF state_law conjunct1 [OF b] TrueI, of ?i ?next] 3 a b n
    by (auto simp: spec_heartbeat_def Let_def spec_update_def split: if_splits)
  note d = with_repo_reads [OF get_law conjunct1 [OF c] 4]
  then have "x = Some (spec_heartbeat (svc_policy svc) hb (stamp (cp_db st)) (stamp (cp_db s2)) n)"
    using c by simp
  with a b c d 5 show ?thesis by (intro exI [of _ "stamp (cp_db s2)"]) auto
qed

lemma service_drain_ok:
  assumes st: "I (cp_db st)" and repo: "svc_repo svc = repo"
    and run: "service_drain svc i st = (Inr r, st')"
  shows "I (cp_db st') \<and> r = map_option (state_node Draining (stamp (cp_db st))) (nodes (cp_db st) i) \<and>
    nodes (cp_db st') = (nodes (cp_db st))(i := r)"
proof -
  from run obtain u s1 s2 where 1: "with_repo (repo_set_draining repo i) st = (Inr u, s1)"
    and 2: "with_repo (repo_get repo i) s1 = (Inr r, s2)"
    and 3: "(case r of None \<Rightarrow> io_return () | Some n \<Rightarrow> publish n) s2 = (Inr (), st')"
    by (auto simp: service_drain_def repo io_bind_eq_Inr)
  note a = with_repo_updates [OF draining_law st TrueI 1]
  note b = with_repo_reads [OF get_law conjunct1 [OF a] 2]
  have "cp_db st' = cp_db s2" using 3 by (auto split: option.splits)
  with a b show ?thesis by (simp add: spec_update_def)
qed

lemma service_get_ok:
  assumes st: "I (cp_db st)" and repo: "svc_repo svc = repo"
    and run: "service_get svc i st = (Inr r, st')"
  shows "I (cp_db st') \<and> r = nodes (cp_db st) i \<and> nodes (cp_db st') = nodes (cp_db st)"
proof -
  from run obtain s1 where 1: "with_repo (repo_get repo i) st = (Inr r, s1)"
    and 2: "(case r of None \<Rightarrow> io_return () | Some n \<Rightarrow> publish n) s1 = (Inr (), st')"
    by (auto simp: service_get_def repo io_bind_eq_Inr)
  have "cp_db st' = cp_db s1" using 2 by (auto split: option.splits)
  with with_repo_reads [OF get_law st 1] show ?thesis by simp
qed

lemma service_list_ok:
  assumes st: "I (cp_db st)" and repo: "svc_repo svc = repo"
    and run: "service_list svc st = (Inr ns, st')"
  shows "I (cp_db st') \<and> ns = listing (nodes (cp_db st)) \<and> nodes (cp_db st') = nodes (cp_db st)"
proof -
  from run obtain s1 where 1: "with_repo (repo_list repo) st = (Inr ns, s1)"
    and 2: "st' = s1\<lparr>cp_gauges := fold record_node ns (cp_gauges s1)\<rparr>"
    by (auto simp: service_list_def repo io_bind_eq_Inr)
  with with_repo_reads [OF list_law st 1] show ?thesis by simp
qed

lemma listing_nodes:
  assumes "I s"
  shows "n \<in> set (listing (nodes s)) \<longleftrightarrow> nodes s (nd_id n) = Some n"
    and "distinct (map nd_id (listing (nodes s)))"
proof -
  have fin: "finite (dom (nodes s))" using assms by (rule finite_nodes)
  have the: "nodes s i = Some (the (nodes s i)) \<and> nd_id (the (nodes s i)) = i" if "i \<in> dom (nodes s)" for i
    using that nodes_id [OF assms] by force
  show "n \<in> set (listing (nodes s)) \<longleftrightarrow> nodes s (nd_id n) = Some n"
    using fin the by (force simp: listing_def)
  have "map nd_id (listing (nodes s)) = sorted_list_of_set (dom (nodes s))"
    using fin the by (auto simp: listing_def intro!: map_idI)
  then show "distinct (map nd_id (listing (nodes s)))" by simp
qed

lemma service_select_ok:
  assumes st: "I (cp_db st)" and repo: "svc_repo svc = repo"
    and run: "service_select svc st = (Inr r, st')"
  shows "nodes (cp_db st') = nodes (cp_db st) \<and>
    (case r of
       None \<Rightarrow> \<forall>i n. nodes (cp_db st) i = Some n \<longrightarrow> \<not> is_selectable n
     | Some n \<Rightarrow> nodes (cp_db st) (nd_id n) = Some n \<and> is_selectable n \<and>
         (\<forall>i m. nodes (cp_db st) i = Some m \<longrightarrow> is_selectable m \<longrightarrow> score m (svc_weights svc) \<le> score n (svc_weights svc)))"
proof -
  let ?sel = "HealthAwareSelector_new (svc_weights svc)"
  from run obtain ns where 1: "with_repo (repo_list repo) st = (Inr ns, st')"
    and r: "r = HealthAwareSelector_select ?sel (filter is_selectable ns)"
    by (auto simp: service_select_def repo io_bind_eq_Inr)
  note a = with_repo_reads [OF list_law st 1]
  then have ns: "m \<in> set ns \<longleftrightarrow> nodes (cp_db st) (nd_id m) = Some m" for m
    using listing_nodes(1) [OF st] by simp
  have id: "nodes (cp_db st) i = Some m \<Longrightarrow> m \<in> set ns" for i m
    using nodes_id [OF st] ns by metis
  show ?thesis
  proof (cases r)
    case None
    then show ?thesis
      using a r id health_selector.select_None_iff [of ?sel "filter is_selectable ns"] by auto
  next
    case (Some n)
    then show ?thesis
      using a r ns id health_selector.select_best [of ?sel "filter is_selectable ns" n]
      by (auto simp: HealthAwareSelector_new_def)
  qed
qed

text \<open>The sweep: each listed node that is live and stale goes offline, the others stay.\<close>

lemma sweep_nodes_ok:
  assumes "I (cp_db st)" "svc_repo svc = repo" "distinct (map nd_id ns)"
    and "\<forall>n \<in> set ns. nodes (cp_db st) (nd_id n) = Some n"
    and "sweep_nodes svc now ns k st = (r, st')"
  defines "hit \<equiv> sweep_hits (svc_policy svc) now"
  shows "I (cp_db st') \<and> swept hit (nodes (cp_db st)) (nodes (cp_db st')) \<and>
    (\<forall>m. r = Inr m \<longrightarrow> m = k + length (filter hit ns) \<and>
       (\<forall>n \<in> set ns. hit n \<longrightarrow> (\<exists>t. nodes (cp_db st') (nd_id n) = Some (state_node Offline t n))))"
  using assms(1-5)
proof (induction ns arbitrary: k st)
  case (Cons n ns)
  show ?case
  proof (cases "hit n")
    case False
    then have run: "sweep_nodes svc now ns k st = (r, st')" using Cons.prems(5) by (simp add: hit_def)
    have "distinct (map nd_id ns)" "\<forall>m \<in> set ns. nodes (cp_db st) (nd_id m) = Some m"
      using Cons.prems(3,4) by simp_all
    from Cons.IH [OF Cons.prems(1,2) this run] False show ?thesis by simp
  next
    case True
    then have hit: "sweep_hits (svc_policy svc) now n" by (simp add: hit_def)
    obtain u s1 where 1: "with_repo (repo_mark_offline repo (nd_id n)) st = (u, s1)" by fastforce
    note a = with_repo_updates [OF offline_law Cons.prems(1) TrueI 1]
    show ?thesis
    proof (cases u)
      case (Inl e)
      then have "st' = s1" "r = Inl e"
        using Cons.prems(2,5) hit 1 by (simp_all add: io_bind_Inl)
      then show ?thesis using a Inl by simp
    next
      case (Inr x)
      let ?off = "state_node Offline (stamp (cp_db st)) n"
      have rest: "sweep_nodes svc now ns (k + 1) s1 = (r, st')"
        using Cons.prems(2,5) hit 1 Inr by (simp add: io_bind_Inr)
      have n1: "nodes (cp_db s1) = (nodes (cp_db st))(nd_id n \<mapsto> ?off)"
        using a Inr Cons.prems(4) by (simp add: spec_update_def)
      have "nd_id m \<noteq> nd_id n" if "m \<in> set ns" for m using Cons.prems(3) that by (auto simp: image_iff)
      then have "\<forall>m \<in> set ns. nodes (cp_db s1) (nd_id m) = Some m"
        using Cons.prems(4) unfolding n1 by simp
      moreover have "distinct (map nd_id ns)" using Cons.prems(3) by simp
      ultimately have IH: "I (cp_db st') \<and> swept hit (nodes (cp_db s1)) (nodes (cp_db st')) \<and>
          (\<forall>m. r = Inr m \<longrightarrow> m = k + 1 + length (filter hit ns) \<and>
            (\<forall>n \<in> set ns. hit n \<longrightarrow> (\<exists>t. nodes (cp_db st') (nd_id n) = Some (state_node Offline t n))))"
        using Cons.IH [OF conjunct1 [OF a] Cons.prems(2) _ _ rest] by blast
      have n: "nodes (cp_db st) (nd_id n) = Some n" using Cons.prems(4) by simp
      have "swept hit ((nodes (cp_db st))(nd_id n \<mapsto> ?off)) (nodes (cp_db st'))"
        using IH unfolding n1 by blast
      then have sw: "swept hit (nodes (cp_db st)) (nodes (cp_db st')) \<and> nodes (cp_db st') (nd_id n) = Some ?off"
        using n True by (rule swept_step) (simp add: hit_def)
      have "m = k + length (filter hit (n # ns)) \<and> (\<forall>n' \<in> set (n # ns). hit n' \<longrightarrow>
          (\<exists>t. nodes (cp_db st') (nd_id n') = Some (state_node Offline t n')))" if "r = Inr m" for m
      proof -
        have "m = k + 1 + length (filter hit ns)"
          and "\<forall>n' \<in> set ns. hit n' \<longrightarrow> (\<exists>t. nodes (cp_db st') (nd_id n') = Some (state_node Offline t n'))"
          using IH that by blast+
        with sw True show ?thesis by auto
      qed
      with IH sw show ?thesis by blast
    qed
  qed
qed auto

lemma mark_stale_offline_ok:
  assumes st: "I (cp_db st)" and repo: "svc_repo svc = repo"
    and run: "mark_stale_offline svc clock st = (r, st')"
  defines "hit \<equiv> sweep_hits (svc_policy svc) (fst (clock (cp_db st)))"
  shows "I (cp_db st') \<and> swept hit (nodes (cp_db st)) (nodes (cp_db st')) \<and>
    (\<forall>m. r = Inr m \<longrightarrow> m = length (filter hit (listing (nodes (cp_db st)))) \<and>
       (\<forall>i n. nodes (cp_db st) i = Some n \<longrightarrow> hit n \<longrightarrow>
          (\<exists>t. nodes (cp_db st') i = Some (state_node Offline t n))))"
proof -
  obtain now db where c: "clock (cp_db st) = (now, db)" by fastforce
  have db: "I db" "nodes db = nodes (cp_db st)" using clock_reads [OF st c] by simp_all
  obtain l s1 where 1: "with_repo (repo_list repo) (st\<lparr>cp_db := db\<rparr>) = (l, s1)" by fastforce
  have "I (cp_db (st\<lparr>cp_db := db\<rparr>))" using db by simp
  note a = with_repo_reads [OF list_law this 1]
  then have s1: "I (cp_db s1)" "nodes (cp_db s1) = nodes (cp_db st)" using db by simp_all
  have start: "with_repo (\<lambda>db. case clock db of (now, db) \<Rightarrow> (Inr now, db)) st = (Inr now, st\<lparr>cp_db := db\<rparr>)"
    by (simp add: with_repo_def c)
  show ?thesis
  proof (cases l)
    case (Inl e)
    then have "st' = s1" "r = Inl e"
      using run 1 start by (simp_all add: mark_stale_offline_def repo io_bind_def)
    then show ?thesis using s1 by simp
  next
    case (Inr ns)
    then have rest: "sweep_nodes svc now ns 0 s1 = (r, st')"
      using run 1 start by (simp add: mark_stale_offline_def repo io_bind_def)
    have ns: "ns = listing (nodes (cp_db s1))" using a Inr s1 db by simp
    have mem: "n \<in> set ns \<longleftrightarrow> nodes (cp_db s1) (nd_id n) = Some n" for n
      using listing_nodes(1) [OF s1(1)] ns by simp
    have "distinct (map nd_id ns)" "\<forall>n \<in> set ns. nodes (cp_db s1) (nd_id n) = Some n"
      using listing_nodes(2) [OF s1(1)] ns mem by simp_all
    note s = sweep_nodes_ok [OF s1(1) repo this rest]
    have "n \<in> set ns \<and> nd_id n = i" if "nodes (cp_db st) i = Some n" for i n
      using that mem nodes_id [OF st that] s1 by simp
    with s show ?thesis using ns s1 by (simp add: hit_def c) blast
  qed
qed

end

section \<open>The service over SQLite\<close>

lemma from_repo_sql_sel [simp]:
  "svc_repo (from_repo_sql e p) = SqliteNodeRepository e" "svc_policy (from_repo_sql e p) = p"
  "svc_weights (from_repo_sql e p) = ScoreWeights_default"
  by (simp_all add: from_repo_sql_def ControlPlaneService_new_def)

lemma service_start_sel [simp]: "cp_db (service_start db) = db"
  by (simp add: service_start_def)

end
