(* ===== verification/CP_Reservation.thy ===== *)
theory CP_Reservation
  imports CP_Service
begin

text \<open>
  Selection with a bandwidth reservation (\<^verbatim>\<open>select_with_bandwidth\<close> of \<^verbatim>\<open>service.rs\<close> over
  the allocators of \<^verbatim>\<open>bandwidth.rs\<close>). The invariant ties the service's allocator map and
  its counters to the guards that callers hold: every counter is the sum of the rates of
  the live guards on it, and no allocator is over its limit.
\<close>

section \<open>The ledger of live guards\<close>

definition cell_sum :: "nat \<Rightarrow> BandwidthGuard multiset \<Rightarrow> nat" where
  "cell_sum c G = sum_mset (image_mset (\<lambda>g. unat (bg_rate g)) (filter_mset (\<lambda>g. bg_reserved g = c) G))"

definition alloc_inv :: "'s CpState \<Rightarrow> BandwidthGuard multiset \<Rightarrow> bool" where
  "alloc_inv st G \<longleftrightarrow>
     (\<forall>i a. cp_allocators st i = Some a \<longrightarrow>
        ba_reserved a < length (cp_counters st) \<and> unat (cp_counters st ! ba_reserved a) \<le> unat (ba_limit a)) \<and>
     inj_on (\<lambda>i. ba_reserved (the (cp_allocators st i))) (dom (cp_allocators st)) \<and>
     (\<forall>c < length (cp_counters st). unat (cp_counters st ! c) = cell_sum c G) \<and>
     (\<forall>g \<in># G. bg_reserved g < length (cp_counters st))"

text \<open>A candidate whose allocator has no room for its share.\<close>

definition refused :: "'s CpState \<Rightarrow> Node \<Rightarrow> bool" where
  "refused st n \<longleftrightarrow> (\<exists>a. cp_allocators st (nd_id n) = Some a \<and>
     unat (ba_limit a) < unat (cp_counters st ! ba_reserved a) + unat (bandwidth_share n))"

text \<open>Allocators persist and their counters only grow.\<close>

definition grows :: "'s CpState \<Rightarrow> 's CpState \<Rightarrow> bool" where
  "grows st st' \<longleftrightarrow> cp_db st' = cp_db st \<and> cp_gauges st' = cp_gauges st \<and>
     (\<forall>i a. cp_allocators st i = Some a \<longrightarrow> cp_allocators st' i = Some a \<and>
        unat (cp_counters st ! ba_reserved a) \<le> unat (cp_counters st' ! ba_reserved a))"

lemma cell_sum_add [simp]:
  "cell_sum c (add_mset g G) = (if bg_reserved g = c then unat (bg_rate g) + cell_sum c G else cell_sum c G)"
  by (simp add: cell_sum_def)

lemma cell_sum_empty [simp]: "cell_sum c {#} = 0"
  by (simp add: cell_sum_def)

lemma cell_sum_remove:
  "g \<in># G \<Longrightarrow> cell_sum c G = (if bg_reserved g = c then unat (bg_rate g) else 0) + cell_sum c (G - {#g#})"
  using cell_sum_add [of c g "G - {#g#}"] by (simp add: insert_DiffM del: cell_sum_add)

lemma cell_sum_fresh: "\<forall>g \<in># G. bg_reserved g < c \<Longrightarrow> cell_sum c G = 0"
  by (induction G) auto

lemma grows_refl [simp]: "grows st st"
  by (simp add: grows_def)

lemma growsD:
  assumes "grows st st'" "cp_allocators st i = Some a"
  shows "cp_allocators st' i = Some a"
    and "unat (cp_counters st ! ba_reserved a) \<le> unat (cp_counters st' ! ba_reserved a)"
  using assms by (simp_all add: grows_def)

lemma grows_trans:
  assumes "grows r s" "grows s t"
  shows "grows r t"
proof -
  have "cp_db t = cp_db r" "cp_gauges t = cp_gauges r" using assms by (simp_all add: grows_def)
  moreover have "cp_allocators t i = Some a \<and>
      unat (cp_counters r ! ba_reserved a) \<le> unat (cp_counters t ! ba_reserved a)"
    if "cp_allocators r i = Some a" for i a
    using growsD [OF assms(1) that] growsD [OF assms(2)] by (meson order_trans)
  ultimately show ?thesis by (simp add: grows_def)
qed

lemma refused_grows:
  assumes "refused st n" "grows st st'"
  shows "refused st' n"
proof -
  obtain a where a: "cp_allocators st (nd_id n) = Some a"
    "unat (ba_limit a) < unat (cp_counters st ! ba_reserved a) + unat (bandwidth_share n)"
    using assms(1) by (auto simp: refused_def)
  with growsD [OF assms(2) a(1)] show ?thesis by (auto simp: refused_def)
qed

lemma alloc_invD:
  assumes "alloc_inv st G"
  shows "cp_allocators st i = Some a \<Longrightarrow> ba_reserved a < length (cp_counters st)"
    and "cp_allocators st i = Some a \<Longrightarrow> unat (cp_counters st ! ba_reserved a) \<le> unat (ba_limit a)"
    and "inj_on (\<lambda>i. ba_reserved (the (cp_allocators st i))) (dom (cp_allocators st))"
    and "c < length (cp_counters st) \<Longrightarrow> unat (cp_counters st ! c) = cell_sum c G"
    and "g \<in># G \<Longrightarrow> bg_reserved g < length (cp_counters st)"
  using assms unfolding alloc_inv_def by blast+

lemma alloc_invI:
  assumes "\<And>i a. A i = Some a \<Longrightarrow> ba_reserved a < length h \<and> unat (h ! ba_reserved a) \<le> unat (ba_limit a)"
    and "inj_on (\<lambda>i. ba_reserved (the (A i))) (dom A)"
    and "\<And>c. c < length h \<Longrightarrow> unat (h ! c) = cell_sum c G"
    and "\<And>g. g \<in># G \<Longrightarrow> bg_reserved g < length h"
    and "cp_allocators st = A" "cp_counters st = h"
  shows "alloc_inv st G"
  using assms(1-4) unfolding alloc_inv_def assms(5,6) by blast

lemma alloc_inv_cell:
  assumes "alloc_inv st G" "cp_allocators st i = Some a" "cp_allocators st j = Some b"
    and "ba_reserved a = ba_reserved b"
  shows "a = b"
proof -
  have "i = j" using inj_onD [OF alloc_invD(3) [OF assms(1)], of i j] assms(2-4) by (simp add: domI)
  with assms(2,3) show ?thesis by simp
qed

lemma alloc_inv_start: "alloc_inv (service_start db) {#}"
  by (simp add: alloc_inv_def service_start_def)

lemma alloc_inv_cong:
  "cp_allocators s = cp_allocators t \<Longrightarrow> cp_counters s = cp_counters t \<Longrightarrow> alloc_inv s G = alloc_inv t G"
  unfolding alloc_inv_def by (simp only:)

lemma alloc_inv_cp_db [simp]:
  "alloc_inv (st\<lparr>cp_db := db\<rparr>) G = alloc_inv st G" "alloc_inv (st\<lparr>cp_gauges := g\<rparr>) G = alloc_inv st G"
  by (simp_all add: alloc_inv_def)

lemma service_allocator_inv:
  assumes inv: "alloc_inv st G" and run: "service_allocator i limit st = (a, st')"
  shows "alloc_inv st' G \<and> cp_allocators st' i = Some a \<and> grows st st'"
proof (cases "cp_allocators st i")
  case None
  let ?h = "cp_counters st" and ?A = "cp_allocators st"
  have a: "a = \<lparr>ba_limit = limit, ba_reserved = length ?h\<rparr>"
    and st': "st' = st\<lparr>cp_allocators := ?A(i \<mapsto> a), cp_counters := ?h @ [0]\<rparr>"
    using run None by (auto simp: service_allocator_def BandwidthAllocator_new_def)
  note D = alloc_invD [OF inv]
  have fresh: "cell_sum (length ?h) G = 0" using D(5) by (intro cell_sum_fresh) blast
  have "ba_reserved b < length (?h @ [0]) \<and> unat ((?h @ [0]) ! ba_reserved b) \<le> unat (ba_limit b)"
    if "(?A(i \<mapsto> a)) j = Some b" for j b
  proof (cases "j = i")
    case True
    then show ?thesis using that a by auto
  next
    case False
    then show ?thesis using that D(1) [of j b] D(2) [of j b] by (simp add: nth_append)
  qed
  moreover have "inj_on (\<lambda>j. ba_reserved (the ((?A(i \<mapsto> a)) j))) (dom (?A(i \<mapsto> a)))"
  proof (rule inj_onI)
    fix j k
    assume jk: "j \<in> dom (?A(i \<mapsto> a))" "k \<in> dom (?A(i \<mapsto> a))"
      and eq: "ba_reserved (the ((?A(i \<mapsto> a)) j)) = ba_reserved (the ((?A(i \<mapsto> a)) k))"
    have cell: "ba_reserved (the ((?A(i \<mapsto> a)) m)) = length ?h \<longleftrightarrow> m = i" if "m \<in> dom (?A(i \<mapsto> a))" for m
      using that D(1) [of m "the (?A m)"] a by (cases "m = i") auto
    show "j = k"
    proof (cases "j = i \<or> k = i")
      case True
      then show ?thesis using cell [OF jk(1)] cell [OF jk(2)] eq by metis
    next
      case False
      then show ?thesis using inj_onD [OF D(3), of j k] jk eq by auto
    qed
  qed
  moreover have "unat ((?h @ [0]) ! c) = cell_sum c G" if "c < length (?h @ [0])" for c
    using that D(4) [of c] fresh by (auto simp: nth_append less_Suc_eq)
  moreover have "bg_reserved g < length (?h @ [0])" if "g \<in># G" for g
    using D(5) [OF that] by simp
  ultimately have "alloc_inv st' G" 
    by (rule alloc_invI [where A = "?A(i \<mapsto> a)" and h = "?h @ [0]"]) (simp_all add: st')
  moreover have "grows st st'" using None D(1) unfolding grows_def st' by (auto simp: nth_append)
  ultimately show ?thesis by (simp add: st')
qed (use run inv in \<open>simp_all add: service_allocator_def\<close>)

lemma try_reserve_inv:
  assumes inv: "alloc_inv st G" and a: "cp_allocators st i = Some a"
    and run: "try_reserve a rate (cp_counters st) = (g, h)"
  shows "alloc_inv (st\<lparr>cp_counters := h\<rparr>) (case g of None \<Rightarrow> G | Some g \<Rightarrow> add_mset g G) \<and>
    grows st (st\<lparr>cp_counters := h\<rparr>) \<and>
    (g = None \<longleftrightarrow> unat (ba_limit a) < unat (cp_counters st ! ba_reserved a) + unat rate) \<and>
    (\<forall>x. g = Some x \<longrightarrow> bg_reserved x = ba_reserved a \<and> bg_rate x = rate)"
proof -
  let ?c = "ba_reserved a" and ?h = "cp_counters st"
  note D = alloc_invD [OF inv]
  have c: "?c < length ?h" using D(1) [OF a] .
  show ?thesis
  proof (cases "unat (?h ! ?c) + unat rate \<le> unat (ba_limit a)")
    case False
    then have "g = None" "h = ?h" using run c by (simp_all add: try_reserve_cases)
    then show ?thesis using inv False by simp
  next
    case True
    have "unat (ba_limit a) < 2 ^ LENGTH(64)" by (rule unsigned_less)
    with True have sum: "unat (?h ! ?c + rate) = unat (?h ! ?c) + unat rate"
      by (simp add: unat_word_ariths)
    have g: "g = Some \<lparr>bg_reserved = ?c, bg_rate = rate\<rparr>" and h: "h = ?h[?c := ?h ! ?c + rate]"
      using run c True by (simp_all add: try_reserve_cases)
    have lim: "ba_reserved b < length h \<and> unat (h ! ba_reserved b) \<le> unat (ba_limit b)"
      if b: "cp_allocators st j = Some b" for j b
    proof (cases "ba_reserved b = ?c")
      case True
      then have "b = a" using alloc_inv_cell [OF inv b a] by simp
      then show ?thesis using c h sum \<open>unat (?h ! ?c) + unat rate \<le> unat (ba_limit a)\<close> by simp
    next
      case False
      then show ?thesis using D(1,2) [OF b] h by simp
    qed
    moreover have "unat (h ! d) = cell_sum d (add_mset \<lparr>bg_reserved = ?c, bg_rate = rate\<rparr> G)" if "d < length h" for d
      using that D(4) [of d] sum by (cases "d = ?c") (simp_all add: h)
    moreover have "bg_reserved x < length h" if "x \<in># add_mset \<lparr>bg_reserved = ?c, bg_rate = rate\<rparr> G" for x
      using that D(5) [of x] c h by auto
    ultimately have "alloc_inv (st\<lparr>cp_counters := h\<rparr>) (add_mset \<lparr>bg_reserved = ?c, bg_rate = rate\<rparr> G)"
      by (rule alloc_invI [OF _ D(3)]) simp_all
    moreover have "unat (?h ! d) \<le> unat (h ! d)" for d
      using sum c by (cases "d = ?c") (simp_all add: h)
    then have "grows st (st\<lparr>cp_counters := h\<rparr>)" by (simp add: grows_def)
    ultimately show ?thesis using g True by simp
  qed
qed

lemma release_guard_inv:
  assumes inv: "alloc_inv st G" and g: "g \<in># G"
  shows "alloc_inv (release_guard g st) (G - {#g#})"
proof -
  let ?c = "bg_reserved g" and ?h = "cp_counters st"
  note D = alloc_invD [OF inv]
  have c: "?c < length ?h" using D(5) [OF g] .
  then have sum: "unat (?h ! ?c) = unat (bg_rate g) + cell_sum ?c (G - {#g#})"
    using D(4) [OF c] cell_sum_remove [OF g, of ?c] by simp
  then have le: "unat (?h ! ?c - bg_rate g) = cell_sum ?c (G - {#g#})"
    by (simp add: unat_sub word_le_nat_alt)
  define h where "h = ?h[?c := ?h ! ?c - bg_rate g]"
  have st': "release_guard g st = st\<lparr>cp_counters := h\<rparr>"
    by (simp add: release_guard_def BandwidthGuard_drop_def h_def)
  have shrink: "unat (h ! d) \<le> unat (?h ! d)" for d
    using le sum c by (cases "d = ?c") (simp_all add: h_def)
  have "ba_reserved b < length h \<and> unat (h ! ba_reserved b) \<le> unat (ba_limit b)"
    if "cp_allocators st j = Some b" for j b
    using D(1,2) [OF that] order_trans [OF shrink] by (simp add: h_def)
  moreover have "unat (h ! d) = cell_sum d (G - {#g#})" if "d < length h" for d
    using D(4) [of d] that le cell_sum_remove [OF g, of d] by (cases "d = ?c") (simp_all add: h_def)
  moreover have "bg_reserved x < length h" if "x \<in># G - {#g#}" for x
    using D(5) [OF in_diffD [OF that]] by (simp add: h_def)
  ultimately show ?thesis unfolding st' by (rule alloc_invI [OF _ D(3)]) simp_all
qed

section \<open>Selection\<close>

lemma reserve_first_ok:
  assumes "alloc_inv st G" "reserve_first ns st = (r, st')"
  shows "alloc_inv st' (case r of None \<Rightarrow> G | Some s \<Rightarrow> add_mset (sel_guard s) G) \<and> grows st st' \<and>
    (case r of
       None \<Rightarrow> \<forall>m \<in> set ns. refused st' m
     | Some s \<Rightarrow> bg_rate (sel_guard s) = bandwidth_share (sel_node s) \<and>
         (\<exists>pre post. ns = pre @ sel_node s # post \<and> (\<forall>m \<in> set pre. refused st' m)))"
  using assms
proof (induction ns arbitrary: st)
  case (Cons n ns)
  obtain a s1 where 1: "service_allocator (nd_id n) (nd_bandwidth_limit n) st = (a, s1)" by fastforce
  obtain g h where 2: "try_reserve a (bandwidth_share n) (cp_counters s1) = (g, h)" by fastforce
  note A = service_allocator_inv [OF Cons.prems(1) 1]
  then have s1: "alloc_inv s1 G" "cp_allocators s1 (nd_id n) = Some a" "grows st s1" by simp_all
  note R = try_reserve_inv [OF s1(1,2) 2]
  let ?s2 = "s1\<lparr>cp_counters := h\<rparr>"
  have s2: "grows st ?s2" using s1(3) R grows_trans by blast
  show ?case
  proof (cases g)
    case (Some x)
    then have "r = Some \<lparr>sel_node = n, sel_guard = x\<rparr>" "st' = ?s2"
      using Cons.prems(2) 1 2 by simp_all
    then show ?thesis using R s2 Some by (auto intro: exI [of _ "[]"])
  next
    case None
    then have "h = cp_counters s1" using 2 by (auto simp: try_reserve_def Let_def split: option.splits if_splits)
    moreover have run: "reserve_first ns ?s2 = (r, st')" using Cons.prems(2) 1 2 None by simp
    ultimately have ref: "refused ?s2 n" using R None s1(2) by (simp add: refused_def)
    have inv: "alloc_inv ?s2 G" using R None by simp
    note IH = Cons.IH [OF inv run]
    have "refused st' n" using refused_grows [OF ref] IH by blast
    moreover have "grows st st'" using grows_trans [OF s2] IH by blast
    moreover have "\<exists>pre post. n # ns = pre @ sel_node s # post \<and> (\<forall>m \<in> set pre. refused st' m)"
      if r: "r = Some s" for s
    proof -
      obtain pre post where "ns = pre @ sel_node s # post" "\<forall>m \<in> set pre. refused st' m"
        using IH r by auto
      then have "n # ns = (n # pre) @ sel_node s # post \<and> (\<forall>m \<in> set (n # pre). refused st' m)"
        using \<open>refused st' n\<close> by simp
      then show ?thesis by blast
    qed
    ultimately show ?thesis using IH by (auto split: option.splits)
  qed
qed simp

lemma sort_key_before:
  fixes f :: "'a \<Rightarrow> 'b::linorder"
  assumes "sort_key f xs = pre @ x # post" "m \<in> set xs" "f m < f x"
  shows "m \<in> set pre"
proof -
  have "sorted (map f (pre @ x # post))" using sorted_sort_key [of f xs] unfolding assms(1) .
  then have "\<forall>y \<in> set (x # post). f x \<le> f y" by (auto simp: sorted_append)
  moreover have "m \<in> set (pre @ x # post)" using assms(1,2) by (metis set_sort)
  ultimately show ?thesis using assms(3) by fastforce
qed

context node_repository
begin

lemma service_select_with_bandwidth_ok:
  assumes st: "I (cp_db st)" and repo: "svc_repo svc = repo" and inv: "alloc_inv st G"
    and run: "service_select_with_bandwidth svc st = (Inr r, st')"
  shows "nodes (cp_db st') = nodes (cp_db st) \<and> I (cp_db st') \<and>
    alloc_inv st' (case r of None \<Rightarrow> G | Some s \<Rightarrow> add_mset (sel_guard s) G) \<and>
    (case r of
       None \<Rightarrow> \<forall>i m. nodes (cp_db st) i = Some m \<longrightarrow> is_selectable m \<longrightarrow> refused st' m
     | Some s \<Rightarrow> nodes (cp_db st) (nd_id (sel_node s)) = Some (sel_node s) \<and> is_selectable (sel_node s) \<and>
         bg_rate (sel_guard s) = bandwidth_share (sel_node s) \<and>
         (\<forall>i m. nodes (cp_db st) i = Some m \<longrightarrow> is_selectable m \<longrightarrow>
            score (sel_node s) (svc_weights svc) < score m (svc_weights svc) \<longrightarrow> refused st' m))"
proof -
  let ?key = "\<lambda>n. - score n (svc_weights svc)"
  from run obtain ns s1 where 1: "with_repo (repo_list repo) st = (Inr ns, s1)"
    and 2: "reserve_first (sort_key ?key (filter is_selectable ns)) s1 = (r, st')"
    by (auto simp: service_select_with_bandwidth_def repo io_bind_eq_Inr Let_def case_prod_beta
        intro: prod_eqI)
  note a = with_repo_reads [OF list_law st 1]
  have mem: "m \<in> set ns \<longleftrightarrow> nodes (cp_db st) (nd_id m) = Some m" for m
    using listing_nodes(1) [OF st] a by simp
  have all: "nodes (cp_db st) i = Some m \<Longrightarrow> m \<in> set ns" for i m
    using mem nodes_id [OF st] by metis
  have "alloc_inv s1 G" using inv a alloc_inv_cong [of s1 st G] by blast
  note R = reserve_first_ok [OF this 2]
  have db: "cp_db st' = cp_db s1" using R by (simp add: grows_def)
  show ?thesis
  proof (cases r)
    case None
    then show ?thesis using R a db all by simp
  next
    case (Some s)
    then obtain pre post where split: "sort_key ?key (filter is_selectable ns) = pre @ sel_node s # post"
      and pre: "\<forall>m \<in> set pre. refused st' m" using R by auto
    have "sel_node s \<in> set (filter is_selectable ns)"
      using split by (metis in_set_conv_decomp set_sort)
    moreover have "refused st' m" if "nodes (cp_db st) i = Some m" "is_selectable m"
      "score (sel_node s) (svc_weights svc) < score m (svc_weights svc)" for i m
      using sort_key_before [OF split, of m] all [OF that(1)] that(2,3) pre by simp
    ultimately show ?thesis using R a db Some mem by auto
  qed
qed

end

end
