(* ===== verification/CP_Progress.thy ===== *)
theory CP_Progress
  imports CP_Service
begin

text \<open>
  What the service guarantees as long as no SQL statement fails: every operation returns
  successfully (the locale \<open>faultless_repository\<close>). The section of properties then
  states, for the service over SQLite, what each operation does to the registry.
\<close>

section \<open>Operations that cannot fail\<close>

definition total :: "('s \<Rightarrow> bool) \<Rightarrow> ('s CpState, RepoError, 'a) io \<Rightarrow> bool" where
  "total I m \<longleftrightarrow> (\<forall>st. I (cp_db st) \<longrightarrow> (\<exists>x st'. m st = (Inr x, st') \<and> I (cp_db st')))"

lemma totalD: "total I m \<Longrightarrow> I (cp_db st) \<Longrightarrow> \<exists>x st'. m st = (Inr x, st') \<and> I (cp_db st')"
  by (simp add: total_def)

lemma total_pure [simp]:
  "total I (io_return x)" "total I (publish n)" "total I (io_lift (Inr x))"
  "total I (io_modify (\<lambda>st. st\<lparr>cp_gauges := g st\<rparr>))"
  by (simp_all add: total_def publish_def)

lemma total_bind: "total I m \<Longrightarrow> (\<And>x. total I (f x)) \<Longrightarrow> total I (io_bind m f)"
  unfolding total_def by (metis io_bind_Inr)

lemma total_option:
  "total I a \<Longrightarrow> (\<And>x. total I (f x)) \<Longrightarrow> total I (case x of None \<Rightarrow> a | Some y \<Rightarrow> f y)"
  by (cases x) simp_all

lemma total_if: "total I a \<Longrightarrow> total I b \<Longrightarrow> total I (if c then a else b)"
  by simp

lemma reserve_first_db: "cp_db (snd (reserve_first ns st)) = cp_db st"
  by (induction ns arbitrary: st)
    (auto simp: service_allocator_def split: prod.split option.split)

locale faultless_repository = node_repository +
  assumes get_succeeds: "I s \<Longrightarrow> \<exists>x s'. repo_get repo i s = (Inr x, s')"
    and list_succeeds: "I s \<Longrightarrow> \<exists>x s'. repo_list repo s = (Inr x, s')"
    and register_succeeds: "I s \<Longrightarrow> \<exists>x s'. repo_register repo req s = (Inr x, s')"
    and heartbeat_succeeds: "I s \<Longrightarrow> \<exists>x s'. repo_apply_heartbeat repo hb s = (Inr x, s')"
    and draining_succeeds: "I s \<Longrightarrow> \<exists>x s'. repo_set_draining repo i s = (Inr x, s')"
    and offline_succeeds: "I s \<Longrightarrow> \<exists>x s'. repo_mark_offline repo i s = (Inr x, s')"
    and state_succeeds: "I s \<Longrightarrow> \<exists>x s'. repo_set_state repo i t s = (Inr x, s')"
    and active_succeeds: "I s \<Longrightarrow> \<exists>x s'. repo_adjust_active repo i delta s = (Inr x, s')"
begin

lemma total_reads:
  assumes "op_reads I nodes stamp op g" "\<And>s. I s \<Longrightarrow> \<exists>x s'. op s = (Inr x, s')"
  shows "total I (with_repo op)"
  unfolding total_def
proof (intro allI impI)
  fix st :: "'a CpState"
  assume st: "I (cp_db st)"
  obtain x db where x: "op (cp_db st) = (Inr x, db)" using assms(2) [OF st] by blast
  then have "with_repo op st = (Inr x, st\<lparr>cp_db := db\<rparr>)" by (simp add: with_repo_def)
  with with_repo_reads [OF assms(1) st this] show "\<exists>x st'. with_repo op st = (Inr x, st') \<and> I (cp_db st')" by blast
qed

lemma total_updates:
  assumes "op_updates I nodes stamp (\<lambda>_. True) op f" "\<And>s. I s \<Longrightarrow> \<exists>x s'. op s = (Inr x, s')"
  shows "total I (with_repo op)"
  unfolding total_def
proof (intro allI impI)
  fix st :: "'a CpState"
  assume st: "I (cp_db st)"
  obtain x db where x: "op (cp_db st) = (Inr x, db)" using assms(2) [OF st] by blast
  then have "with_repo op st = (Inr x, st\<lparr>cp_db := db\<rparr>)" by (simp add: with_repo_def)
  with with_repo_updates [OF assms(1) st TrueI this] show "\<exists>x st'. with_repo op st = (Inr x, st') \<and> I (cp_db st')"
    by blast
qed

lemmas total_repo =
  total_reads [OF get_law get_succeeds] total_reads [OF list_law list_succeeds]
  total_updates [OF register_law register_succeeds] total_updates [OF heartbeat_law heartbeat_succeeds]
  total_updates [OF draining_law draining_succeeds] total_updates [OF offline_law offline_succeeds]
  total_updates [OF state_law state_succeeds]

lemma total_heartbeat:
  assumes "svc_repo svc = repo"
  shows "total I (service_heartbeat svc hb)"
  unfolding service_heartbeat_def assms Let_def
  by (intro total_bind total_option total_if total_repo total_pure)

lemma total_drain:
  assumes "svc_repo svc = repo"
  shows "total I (service_drain svc i)"
  unfolding service_drain_def assms by (intro total_bind total_option total_repo total_pure)

lemma total_select:
  assumes "svc_repo svc = repo"
  shows "total I (service_select svc)"
  unfolding service_select_def assms Let_def by (intro total_bind total_repo total_pure)

lemma total_select_with_bandwidth:
  assumes "svc_repo svc = repo"
  shows "total I (service_select_with_bandwidth svc)"
proof -
  have "total I (\<lambda>st. case reserve_first ns st of (r, st) \<Rightarrow> (Inr r, st))" for ns
    unfolding total_def by (simp add: split_beta reserve_first_db)
  then show ?thesis
    unfolding service_select_with_bandwidth_def assms Let_def by (intro total_bind total_repo)
qed

lemma adjust_active_succeeds:
  assumes "I (cp_db st)" "svc_repo svc = repo"
  shows "\<exists>st'. service_adjust_active svc i delta st = (Inr (), st') \<and> (fits_active i delta (nodes (cp_db st)) \<longrightarrow> I (cp_db st'))"
proof -
  obtain db where "repo_adjust_active repo i delta (cp_db st) = (Inr (), db)" using active_succeeds [OF assms(1)] by auto
  then have run: "with_repo (repo_adjust_active repo i delta) st = (Inr (), st\<lparr>cp_db := db\<rparr>)" by (simp add: with_repo_def)
  have "fits_active i delta (nodes (cp_db st)) \<longrightarrow> I (cp_db (st\<lparr>cp_db := db\<rparr>))"
    using with_repo_updates [OF active_law assms(1) _ run] by blast
  with run show ?thesis by (auto simp: service_adjust_active_def assms(2))
qed

lemma total_get:
  assumes "svc_repo svc = repo"
  shows "total I (service_get svc i)"
  unfolding service_get_def assms by (intro total_bind total_option total_repo total_pure)

lemma total_list:
  assumes "svc_repo svc = repo"
  shows "total I (service_list svc)"
  unfolding service_list_def assms by (intro total_bind total_repo total_pure)

lemma total_sweep_nodes:
  assumes "svc_repo svc = repo"
  shows "total I (sweep_nodes svc now ns k)"
  by (induction ns arbitrary: k)
    (simp_all add: assms total_bind [OF total_repo(6)])

lemma total_sweep:
  assumes "svc_repo svc = repo"
  shows "total I (mark_stale_offline svc clock)"
proof -
  have "total I (with_repo (\<lambda>db. case clock db of (now, db) \<Rightarrow> (Inr now, db)))"
    unfolding total_def by (auto simp: with_repo_def dest: clock_reads split: prod.split)
  then show ?thesis
    unfolding mark_stale_offline_def assms
    by (intro total_bind total_repo total_sweep_nodes [OF assms])
qed

lemma total_register:
  assumes "svc_repo svc = repo"
  shows "total I (service_register svc req)"
  unfolding total_def
proof (intro allI impI)
  fix st :: "'a CpState"
  assume st: "I (cp_db st)"
  obtain u s1 where 1: "with_repo (repo_register repo req) st = (Inr u, s1)"
    using totalD [OF total_repo(3) st] by blast
  note a = with_repo_updates [OF register_law st TrueI 1]
  obtain x s2 where 2: "with_repo (repo_get repo (rr_node_id req)) s1 = (Inr x, s2)"
    using totalD [OF total_repo(1) conjunct1 [OF a]] by blast
  note b = with_repo_reads [OF get_law conjunct1 [OF a] 2]
  have "\<exists>n. x = Some n" using a b by (simp add: spec_register_def)
  then show "\<exists>x st'. service_register svc req st = (Inr x, st') \<and> I (cp_db st')"
    using 1 2 b by (auto simp: service_register_def assms io_bind_Inr io_bind_modify publish_def)
qed

end

definition quiet_inv :: "CpEnv \<Rightarrow> Db \<Rightarrow> bool" where
  "quiet_inv e db \<longleftrightarrow> db_inv e db \<and> (\<forall>i. \<not> ce_fault e i)"

lemma execute_now_quiet:
  "\<forall>i. \<not> ce_fault e i \<Longrightarrow> \<exists>db'. execute_now e upd db = (Inr (), db')"
  by (simp add: execute_now_def now_epoch_def utc_now_def db_execute_def Let_def)

lemma op_updates_quiet:
  "op_updates (db_inv e) nodes stamp pre op f \<Longrightarrow> op_updates (quiet_inv e) nodes stamp pre op f"
  unfolding op_updates_def quiet_inv_def by blast

lemma op_reads_quiet:
  "op_reads (db_inv e) nodes stamp op g \<Longrightarrow> op_reads (quiet_inv e) nodes stamp op g"
  unfolding op_reads_def quiet_inv_def by blast

lemma collect_ok_total: "\<forall>r \<in> set rs. \<exists>x. r = Inr x \<Longrightarrow> \<exists>xs. collect_ok rs = Inr xs"
  by (induction rs) auto

lemma Sqlite_list_total:
  assumes "db_inv e db" "\<not> ce_fault e (db_stmts db)"
  shows "\<exists>ns db'. Sqlite_list e db = (Inr ns, db')"
proof -
  have "\<exists>ns. collect_ok (map (row_into_node e) (sort_key row_id (db_nodes db))) = Inr ns"
    using assms(1) by (intro collect_ok_total) (simp add: db_inv_def table_ok_def row_ok_def)
  then show ?thesis using assms(2) by (auto simp: Sqlite_list_def io_bind_def db_fetch_def Let_def)
qed

interpretation quiet: faultless_repository "SqliteNodeRepository e" "utc_now e" "quiet_inv e" "db_map e" "db_stamp e"
proof unfold_locales
  show "quiet_inv e s \<Longrightarrow> utc_now e s = (t, s') \<Longrightarrow> quiet_inv e s' \<and> db_map e s' = db_map e s" for s t s'
    using sqlite.clock_reads by (auto simp: quiet_inv_def)
  show "quiet_inv e s \<Longrightarrow> \<exists>x s'. repo_get (SqliteNodeRepository e) i s = (Inr x, s')" for s i
    using Sqlite_get_total by (fastforce simp: quiet_inv_def SqliteNodeRepository_def)
  show "quiet_inv e s \<Longrightarrow> \<exists>x s'. repo_list (SqliteNodeRepository e) s = (Inr x, s')" for s
    using Sqlite_list_total by (fastforce simp: quiet_inv_def SqliteNodeRepository_def)
  show "quiet_inv e s \<Longrightarrow> finite (dom (db_map e s))" "quiet_inv e s \<Longrightarrow> db_map e s i = Some n \<Longrightarrow> nd_id n = i"
    for s i n
    unfolding quiet_inv_def by (blast intro: sqlite.finite_nodes sqlite.nodes_id)+
qed ((rule op_reads_quiet op_updates_quiet, rule sqlite.get_law sqlite.list_law sqlite.register_law
      sqlite.heartbeat_law sqlite.draining_law sqlite.offline_law sqlite.state_law sqlite.active_law
      sqlite.bytes_law) |
    (use execute_now_quiet in \<open>fastforce simp: quiet_inv_def SqliteNodeRepository_def Sqlite_register_def
      statement_defs\<close>))+

lemma sample_quiet: "quiet_inv sample_env sample_db" "\<forall>i. \<not> ce_fault sample_env i"
  by (simp_all add: quiet_inv_def sample_db_ok) (simp_all add: sample_env_def)

text \<open>A registry whose node, in a given state, sent its last heartbeat long ago.\<close>

definition stale_db :: "string \<Rightarrow> Db" where
  "stale_db status = empty_db\<lparr>db_nodes := [\<lparr>row_id = ''n1'', row_address = ''10.0.0.1:1080'', row_status = status,
     row_last_heartbeat = Some 0, row_max_connections = 10, row_active_connections = SqlInt 0,
     row_bandwidth_limit = 1000, row_bytes_up = SqlInt 0, row_bytes_down = SqlInt 0, row_latency_ms = 0,
     row_created_at = 0, row_updated_at = 0\<rparr>]\<rparr>"

lemma stale_db_ok:
  "db_inv sample_env (stale_db ''offline'')" "db_inv sample_env (stale_db ''healthy'')"
  "\<exists>n. db_map sample_env (stale_db ''offline'') ''n1'' = Some n \<and> nd_state n = Offline \<and> nd_last_heartbeat n = Some 0"
  "\<exists>n. db_map sample_env (stale_db ''healthy'') ''n1'' = Some n \<and> nd_state n = Healthy \<and> nd_last_heartbeat n = Some 0"
  using env_ok_sample
  by (simp_all add: db_inv_def stale_db_def table_ok_def row_ok_def db_map_def table_map_def row_into_node_def
      NodeState_parse_def try_get_i64_def epoch_def opt_epoch_def from_timestamp_def sample_env_def)

section \<open>Properties\<close>

text \<open>
  C23. While the database answers, no request fails, now or later: on a well-formed registry every operation of the
  service returns a value, so the errors "node disappeared after register" and a failure to decode a row are
  not seen, and it leaves a well-formed registry behind, on which the same holds again. The one
  exception is \<^verbatim>\<open>adjust_active\<close>: it always succeeds, and leaves the registry well-formed when the
  adjusted count fits in 32 bits.
\<close>

theorem service_operations_succeed:
  assumes "db_inv e (cp_db st)" and "\<forall>i. \<not> ce_fault e i" and svc_def: "svc = from_repo_sql e p"
  shows "(\<exists>n st'. service_register svc req st = (Inr n, st') \<and> db_inv e (cp_db st')) \<and>
    (\<exists>st'. service_heartbeat svc hb st = (Inr (), st') \<and> db_inv e (cp_db st')) \<and>
    (\<exists>n st'. service_drain svc i st = (Inr n, st') \<and> db_inv e (cp_db st')) \<and>
    (\<exists>n st'. service_get svc i st = (Inr n, st') \<and> db_inv e (cp_db st')) \<and>
    (\<exists>ns st'. service_list svc st = (Inr ns, st') \<and> db_inv e (cp_db st')) \<and>
    (\<exists>n st'. service_select svc st = (Inr n, st') \<and> db_inv e (cp_db st')) \<and>
    (\<exists>s st'. service_select_with_bandwidth svc st = (Inr s, st') \<and> db_inv e (cp_db st')) \<and>
    (\<exists>k st'. mark_stale_offline svc (utc_now e) st = (Inr k, st') \<and> db_inv e (cp_db st')) \<and>
    (\<exists>st'. service_adjust_active svc i delta st = (Inr (), st') \<and>
       (fits_active i delta (db_map e (cp_db st)) \<longrightarrow> db_inv e (cp_db st')))"
proof -
  have q: "quiet_inv e (cp_db st)" and r: "svc_repo svc = SqliteNodeRepository e"
    using assms(1,2) by (simp_all add: quiet_inv_def svc_def)
  note runs = quiet.total_register [OF r, of req] quiet.total_heartbeat [OF r, of hb] quiet.total_drain [OF r, of i]
    quiet.total_get [OF r, of i] quiet.total_list [OF r] quiet.total_select [OF r]
    quiet.total_select_with_bandwidth [OF r] quiet.total_sweep [OF r]
  show ?thesis
    using runs [THEN totalD, OF q] quiet.adjust_active_succeeds [OF q r, of i delta]
    by (auto simp: quiet_inv_def)
qed

theorem service_operations_succeed_witness:
  "(\<exists>st'. service_heartbeat (from_repo_sql sample_env HealthPolicy_default) (sample_beat 9) (service_start sample_db) = (Inr (), st')) \<and>
   (\<exists>st'. service_adjust_active (from_repo_sql sample_env HealthPolicy_default) ''n1'' 3 (service_start sample_db) = (Inr (), st') \<and>
      db_inv sample_env (cp_db st'))"
proof -
  have "fits_active ''n1'' 3 (db_map sample_env sample_db)"
    using sample_db_ok(2) by (simp add: fits_active_def new_node_def)
  then show ?thesis
    using service_operations_succeed [OF _ sample_quiet(2) refl, of "service_start sample_db" HealthPolicy_default
        sample_request "sample_beat 9" "''n1''" 3] sample_db_ok(1) by auto
qed

text \<open>
  C24. While the database answers, every heartbeat is accepted, from a known or an unknown node. Whenever one is accepted,
  a known node is stamped with the time of the call, stores the reported load, and
  moves its state exactly as the health policy says, and every other node is left alone; a heartbeat for an
  unknown node changes nothing. In particular a heartbeat never brings an offline or draining node back.
\<close>

theorem heartbeat_effect:
  assumes "db_inv e (cp_db st)"
  shows "((\<forall>i. \<not> ce_fault e i) \<longrightarrow> (\<exists>st'. service_heartbeat (from_repo_sql e p) hb st = (Inr (), st'))) \<and>
    (\<forall>st'. service_heartbeat (from_repo_sql e p) hb st = (Inr (), st') \<longrightarrow>
      (case db_map e (cp_db st) (hb_node_id hb) of
        None \<Rightarrow> db_map e (cp_db st') = db_map e (cp_db st)
      | Some n \<Rightarrow> \<exists>n'. db_map e (cp_db st') = (db_map e (cp_db st))(hb_node_id hb \<mapsto> n') \<and>
          nd_state n' = reclassify_after_heartbeat (nd_state n) (hb_active_connections hb) (nd_max_connections n) p \<and>
          nd_last_heartbeat n' = Some (db_stamp e (cp_db st)) \<and>
          nd_active_connections n' = hb_active_connections hb \<and>
          (nd_state n \<in> {Offline, Draining} \<longrightarrow> nd_state n' = nd_state n)))"
proof (intro conjI allI impI)
  assume "\<forall>i. \<not> ce_fault e i"
  with assms have "quiet_inv e (cp_db st)" by (simp add: quiet_inv_def)
  from totalD [OF quiet.total_heartbeat [OF from_repo_sql_sel(1)] this]
  show "\<exists>st'. service_heartbeat (from_repo_sql e p) hb st = (Inr (), st')" by auto
next
  fix st'
  assume run: "service_heartbeat (from_repo_sql e p) hb st = (Inr (), st')"
  show "case db_map e (cp_db st) (hb_node_id hb) of
        None \<Rightarrow> db_map e (cp_db st') = db_map e (cp_db st)
      | Some n \<Rightarrow> \<exists>n'. db_map e (cp_db st') = (db_map e (cp_db st))(hb_node_id hb \<mapsto> n') \<and>
          nd_state n' = reclassify_after_heartbeat (nd_state n) (hb_active_connections hb) (nd_max_connections n) p \<and>
          nd_last_heartbeat n' = Some (db_stamp e (cp_db st)) \<and>
          nd_active_connections n' = hb_active_connections hb \<and>
          (nd_state n \<in> {Offline, Draining} \<longrightarrow> nd_state n' = nd_state n)"
  proof (cases "db_map e (cp_db st) (hb_node_id hb)")
    case None
    then show ?thesis
      using sqlite.service_heartbeat_unknown [of e st "from_repo_sql e p" hb "Inr ()" st'] assms run by simp
  next
    case (Some n)
    then obtain later where "db_map e (cp_db st') = (db_map e (cp_db st))(hb_node_id hb \<mapsto>
        spec_heartbeat p hb (db_stamp e (cp_db st)) later n)"
      using sqlite.service_heartbeat_ok [of e st "from_repo_sql e p" hb n st'] assms run by auto
    then show ?thesis using Some
      by (auto simp: spec_heartbeat_def Let_def beat_node_def state_node_def reclassify_after_heartbeat_def)
  qed
qed

theorem heartbeat_effect_witness:
  "\<exists>st' n'. service_heartbeat (from_repo_sql sample_env HealthPolicy_default) (sample_beat 9) (service_start sample_db) = (Inr (), st') \<and>
     db_map sample_env (cp_db st') ''n1'' = Some n' \<and> nd_state n' = Degraded"
proof -
  note eff = heartbeat_effect [of sample_env "service_start sample_db" HealthPolicy_default "sample_beat 9"]
  obtain st' where run: "service_heartbeat (from_repo_sql sample_env HealthPolicy_default) (sample_beat 9)
      (service_start sample_db) = (Inr (), st')"
    using eff sample_db_ok(1) sample_quiet(2) by auto
  have "reclassify_after_heartbeat Starting 9 10 HealthPolicy_default = Degraded"
    using degraded_threshold_exact [of 10 9]
    by (simp add: reclassify_after_heartbeat_def HealthPolicy_default_def)
  then show ?thesis
    using eff [THEN conjunct2, rule_format, OF _ run] sample_db_ok run
    by (auto simp: sample_beat_def sample_request_def new_node_def)
qed

text \<open>
  C25. The sweep marks offline exactly the nodes that are Starting, Healthy or Degraded, have sent a heartbeat,
  and whose last heartbeat is at least the timeout old when the sweep reads the clock (any heartbeat counts as that old
  under a timeout of zero); it counts them, and touches no other node.
\<close>

theorem sweep_effect:
  assumes "db_inv e (cp_db st)" and "mark_stale_offline (from_repo_sql e p) (utc_now e) st = (Inr k, st')"
  defines "now \<equiv> ce_clock e (db_reads (cp_db st))"
  defines "hit \<equiv> \<lambda>n. nd_state n \<in> {Starting, Healthy, Degraded} \<and> (\<exists>ts. nd_last_heartbeat n = Some ts \<and>
      (hp_offline_timeout p = 0 \<or> int (hp_offline_timeout p) \<le> now - ts))"
  shows "k = length (filter hit (listing (db_map e (cp_db st)))) \<and>
    (\<forall>i. case db_map e (cp_db st) i of
       None \<Rightarrow> db_map e (cp_db st') i = None
     | Some n \<Rightarrow> if hit n then \<exists>t. db_map e (cp_db st') i = Some (n\<lparr>nd_state := Offline, nd_updated_at := t\<rparr>)
                else db_map e (cp_db st') i = Some n)"
proof -
  let ?h = "sweep_hits p (ce_clock e (db_reads (cp_db st)))"
  have h: "hit = ?h" by (rule ext) (simp add: hit_def now_def sweep_hits_def is_stale_exact)
  have all: "swept ?h (db_map e (cp_db st)) (db_map e (cp_db st')) \<and>
      k = length (filter ?h (listing (db_map e (cp_db st)))) \<and>
      (\<forall>i n. db_map e (cp_db st) i = Some n \<longrightarrow> ?h n \<longrightarrow>
         (\<exists>t. db_map e (cp_db st') i = Some (state_node Offline t n)))"
    using sqlite.mark_stale_offline_ok [of e st "from_repo_sql e p" "Inr k" st'] assms(1,2)
    by (simp add: utc_now_def)
  show ?thesis
  proof (intro conjI allI)
    show "k = length (filter hit (listing (db_map e (cp_db st))))" using all h by simp
    fix i
    have "db_map e (cp_db st') i = db_map e (cp_db st) i \<or> (\<exists>n t. db_map e (cp_db st) i = Some n \<and>
        ?h n \<and> db_map e (cp_db st') i = Some (state_node Offline t n))"
      using all unfolding swept_def by blast
    then show "case db_map e (cp_db st) i of
       None \<Rightarrow> db_map e (cp_db st') i = None
     | Some n \<Rightarrow> if hit n then \<exists>t. db_map e (cp_db st') i = Some (n\<lparr>nd_state := Offline, nd_updated_at := t\<rparr>)
                else db_map e (cp_db st') i = Some n"
      using all h by (auto simp: state_node_def split: option.split)
  qed
qed

theorem sweep_effect_witness:
  "\<exists>k st' n. mark_stale_offline (from_repo_sql sample_env HealthPolicy_default) (utc_now sample_env)
       (service_start (stale_db ''healthy'')) = (Inr k, st') \<and>
     db_map sample_env (cp_db st') ''n1'' = Some n \<and> nd_state n = Offline"
proof -
  let ?st = "service_start (stale_db ''healthy'')"
  have "quiet_inv sample_env (cp_db ?st)" using stale_db_ok(2) sample_quiet(2) by (simp add: quiet_inv_def)
  then obtain k st' where run: "mark_stale_offline (from_repo_sql sample_env HealthPolicy_default) (utc_now sample_env) ?st = (Inr k, st')"
    using totalD [OF quiet.total_sweep [OF from_repo_sql_sel(1)], of sample_env ?st HealthPolicy_default] by blast
  obtain n where n: "db_map sample_env (cp_db ?st) ''n1'' = Some n" "nd_state n = Healthy" "nd_last_heartbeat n = Some 0"
    using stale_db_ok(4) by auto
  have "int (hp_offline_timeout HealthPolicy_default) \<le> ce_clock sample_env i - 0" for i
    by (simp add: HealthPolicy_default_def sample_env_def from_secs_def)
  then have "\<exists>t. db_map sample_env (cp_db st') ''n1'' = Some (n\<lparr>nd_state := Offline, nd_updated_at := t\<rparr>)"
    using sweep_effect [OF _ run, THEN conjunct2, rule_format, of "''n1''"] stale_db_ok(2) n by simp
  with run show ?thesis by fastforce
qed

text \<open>
  C26. Selection over the registry. While the database answers, a selection is answered. It changes no node; it answers
  none exactly when no registered node is Healthy or Degraded, and otherwise a registered node, as stored, that is
  Healthy or Degraded and whose score is at least that of every other such node.
\<close>

theorem select_effect:
  assumes "db_inv e (cp_db st)"
  shows "((\<forall>i. \<not> ce_fault e i) \<longrightarrow> (\<exists>r st'. service_select (from_repo_sql e p) st = (Inr r, st'))) \<and>
    (\<forall>r st'. service_select (from_repo_sql e p) st = (Inr r, st') \<longrightarrow>
      db_map e (cp_db st') = db_map e (cp_db st) \<and>
      (r = None \<longleftrightarrow> (\<forall>i n. db_map e (cp_db st) i = Some n \<longrightarrow> nd_state n \<notin> {Healthy, Degraded})) \<and>
      (\<forall>n. r = Some n \<longrightarrow> db_map e (cp_db st) (nd_id n) = Some n \<and> nd_state n \<in> {Healthy, Degraded} \<and>
        (\<forall>i m. db_map e (cp_db st) i = Some m \<longrightarrow> nd_state m \<in> {Healthy, Degraded} \<longrightarrow>
           score m ScoreWeights_default \<le> score n ScoreWeights_default)))"
proof (rule conjI; intro allI impI)
  assume "\<forall>i. \<not> ce_fault e i"
  with assms have "quiet_inv e (cp_db st)" by (simp add: quiet_inv_def)
  from totalD [OF quiet.total_select [OF from_repo_sql_sel(1)] this]
  show "\<exists>r st'. service_select (from_repo_sql e p) st = (Inr r, st')" by blast
next
  fix r st'
  assume run: "service_select (from_repo_sql e p) st = (Inr r, st')"
  have sel: "is_selectable n \<longleftrightarrow> nd_state n \<in> {Healthy, Degraded}" for n by (simp add: is_selectable_def)
  show "db_map e (cp_db st') = db_map e (cp_db st) \<and>
      (r = None \<longleftrightarrow> (\<forall>i n. db_map e (cp_db st) i = Some n \<longrightarrow> nd_state n \<notin> {Healthy, Degraded})) \<and>
      (\<forall>n. r = Some n \<longrightarrow> db_map e (cp_db st) (nd_id n) = Some n \<and> nd_state n \<in> {Healthy, Degraded} \<and>
        (\<forall>i m. db_map e (cp_db st) i = Some m \<longrightarrow> nd_state m \<in> {Healthy, Degraded} \<longrightarrow>
           score m ScoreWeights_default \<le> score n ScoreWeights_default))"
    using sqlite.service_select_ok [OF assms from_repo_sql_sel(1) run] unfolding sel
    by (cases r) (auto simp del: insert_iff)
qed

theorem select_effect_witness:
  "\<exists>st'. service_select (from_repo_sql sample_env HealthPolicy_default) (service_start sample_db) = (Inr None, st')"
proof -
  note eff = select_effect [of sample_env "service_start sample_db" HealthPolicy_default]
  obtain x st' where run: "service_select (from_repo_sql sample_env HealthPolicy_default)
      (service_start sample_db) = (Inr x, st')"
    using eff sample_db_ok(1) sample_quiet(2) by auto
  have "x = None"
    using eff [THEN conjunct2, rule_format, OF _ run] sample_db_ok by (auto simp: new_node_def split: if_splits)
  with run show ?thesis by blast
qed

text \<open>
  C27. Re-registration does not reset the heartbeat clock: a node that went offline because it was
  stale and then registers again is marked offline again by the next sweep, unless a heartbeat
  arrives in between.
\<close>

theorem reregistered_node_swept_again:
  assumes "db_inv e (cp_db st)" "db_map e (cp_db st) (rr_node_id req) = Some n"
    and "nd_state n = Offline"
    and "service_register (from_repo_sql e p) req st = (Inr n1, st1)"
    and "is_stale (nd_last_heartbeat n) (ce_clock e (db_reads (cp_db st1))) p"
    and "mark_stale_offline (from_repo_sql e p) (utc_now e) st1 = (Inr k, st2)"
  shows "nd_state n1 = Starting \<and>
    (\<exists>n2. db_map e (cp_db st2) (rr_node_id req) = Some n2 \<and> nd_state n2 = Offline)"
proof -
  have reg: "db_inv e (cp_db st1)" "db_map e (cp_db st1) (rr_node_id req) = Some n1"
    and "db_map e (cp_db st1) = spec_register req (db_stamp e (cp_db st)) (db_map e (cp_db st))"
    using sqlite.service_register_ok [OF assms(1) from_repo_sql_sel(1) assms(4)] by blast+
  then have n1: "n1 = renew_node req (db_stamp e (cp_db st)) n" using assms(2) reg(2) by (simp add: spec_register_def)
  then have "nd_state n1 = Starting" "nd_last_heartbeat n1 = nd_last_heartbeat n"
    using assms(3) by (simp_all add: renew_node_def)
  then have "sweep_hits p (ce_clock e (db_reads (cp_db st1))) n1" using assms(5) by (simp add: sweep_hits_def)
  then obtain t where "db_map e (cp_db st2) (rr_node_id req) = Some (state_node Offline t n1)"
    using sqlite.mark_stale_offline_ok [of e st1 "from_repo_sql e p" "Inr k" st2] assms(6) reg
    by (auto simp: utc_now_def)
  then show ?thesis using \<open>nd_state n1 = Starting\<close> by (simp add: state_node_def)
qed

theorem reregistered_node_swept_again_witness:
  "\<exists>st1 st2 n1 n2 k. service_register (from_repo_sql sample_env HealthPolicy_default) sample_request
       (service_start (stale_db ''offline'')) = (Inr n1, st1) \<and> nd_state n1 = Starting \<and>
     mark_stale_offline (from_repo_sql sample_env HealthPolicy_default) (utc_now sample_env) st1 = (Inr k, st2) \<and>
     db_map sample_env (cp_db st2) ''n1'' = Some n2 \<and> nd_state n2 = Offline"
proof -
  let ?svc = "from_repo_sql sample_env HealthPolicy_default"
  have r: "svc_repo ?svc = SqliteNodeRepository sample_env" by simp
  have q: "quiet_inv sample_env (stale_db ''offline'')" using stale_db_ok(1) sample_quiet(2) by (simp add: quiet_inv_def)
  obtain n1 st1 where reg: "service_register ?svc sample_request (service_start (stale_db ''offline'')) = (Inr n1, st1)"
    and q1: "quiet_inv sample_env (cp_db st1)"
    using totalD [OF quiet.total_register [OF r, of sample_request], of "service_start (stale_db ''offline'')"] q by auto
  obtain k st2 where sweep: "mark_stale_offline ?svc (utc_now sample_env) st1 = (Inr k, st2)"
    using totalD [OF quiet.total_sweep [OF r] q1] by auto
  obtain n where n: "db_map sample_env (stale_db ''offline'') ''n1'' = Some n" "nd_state n = Offline" "nd_last_heartbeat n = Some 0"
    using stale_db_ok(3) by blast
  have "is_stale (nd_last_heartbeat n) (ce_clock sample_env (db_reads (cp_db st1))) HealthPolicy_default"
    by (simp add: n is_stale_def sample_env_def duration_to_std_def HealthPolicy_default_def from_secs_def)
  then show ?thesis
    using reregistered_node_swept_again [OF _ _ n(2) reg _ sweep] stale_db_ok(1) n(1) reg sweep
    by (simp add: sample_request_def)
qed

end
