(* ===== verification/CP_Lifecycle.thy ===== *)
theory CP_Lifecycle
  imports CP_Reservation CP_Progress
begin

text \<open>
  The control plane as a state machine: its state is the service state together with the
  guards callers hold, its operations are the requests the API and the sweep task issue,
  each run to completion, successfully or with an error part-way. The lemmas follow one
  node through such a history: which state changes exist, what never changes back, and
  that the registry and the bandwidth ledger stay consistent throughout.
\<close>

section \<open>Operations\<close>

datatype cp_op =
  OpRegister RegisterRequest
| OpHeartbeat Heartbeat
| OpDrain string
| OpGet string
| OpList
| OpSelect
| OpSelectBandwidth
| OpRelease BandwidthGuard
| OpSweep

type_synonym 's cp_config = "'s CpState \<times> BandwidthGuard multiset"

fun cp_exec :: "'s ControlPlaneService \<Rightarrow> ('s \<Rightarrow> DateTime \<times> 's) \<Rightarrow> cp_op \<Rightarrow> 's cp_config \<Rightarrow> 's cp_config" where
  "cp_exec svc clock (OpRegister req) (st, G) = (snd (service_register svc req st), G)"
| "cp_exec svc clock (OpHeartbeat hb) (st, G) = (snd (service_heartbeat svc hb st), G)"
| "cp_exec svc clock (OpDrain i) (st, G) = (snd (service_drain svc i st), G)"
| "cp_exec svc clock (OpGet i) (st, G) = (snd (service_get svc i st), G)"
| "cp_exec svc clock OpList (st, G) = (snd (service_list svc st), G)"
| "cp_exec svc clock OpSelect (st, G) = (snd (service_select svc st), G)"
| "cp_exec svc clock OpSelectBandwidth (st, G) =
     (case service_select_with_bandwidth svc st of
        (Inr (Some s), st') \<Rightarrow> (st', add_mset (sel_guard s) G)
      | (_, st') \<Rightarrow> (st', G))"
| "cp_exec svc clock (OpRelease g) (st, G) = (if g \<in># G then (release_guard g st, G - {#g#}) else (st, G))"
| "cp_exec svc clock OpSweep (st, G) = (snd (mark_stale_offline svc clock st), G)"

definition cp_run :: "'s ControlPlaneService \<Rightarrow> ('s \<Rightarrow> DateTime \<times> 's) \<Rightarrow> cp_op list \<Rightarrow> 's cp_config \<Rightarrow> 's cp_config" where
  "cp_run svc clock ops = fold (cp_exec svc clock) ops"

section \<open>State changes of one node\<close>

text \<open>The state changes that occur; a heartbeat, a drain, a sweep and a re-registration.\<close>

definition lifecycle_edge :: "NodeState \<Rightarrow> NodeState \<Rightarrow> bool" where
  "lifecycle_edge s t \<longleftrightarrow> s = t \<or>
     (s \<in> {Starting, Healthy, Degraded} \<and> t \<in> {Healthy, Degraded}) \<or>
     (s \<noteq> Draining \<and> t = Draining) \<or>
     (s \<in> {Starting, Healthy, Degraded} \<and> t = Offline) \<or>
     (s = Offline \<and> t = Starting)"

definition lifecycle :: "registry \<Rightarrow> registry \<Rightarrow> bool" where
  "lifecycle N N' \<longleftrightarrow>
     (\<forall>i n. N i = Some n \<longrightarrow> (\<exists>n'. N' i = Some n' \<and> lifecycle_edge (nd_state n) (nd_state n'))) \<and>
     (\<forall>i n'. N i = None \<longrightarrow> N' i = Some n' \<longrightarrow> nd_state n' = Starting)"

lemma lifecycle_refl [simp]: "lifecycle N N"
  by (simp add: lifecycle_def lifecycle_edge_def)

text \<open>The same, operation by operation: which operation may move node \<open>i\<close> from which state to which.\<close>

fun op_edge :: "cp_op \<Rightarrow> string \<Rightarrow> NodeState \<Rightarrow> NodeState \<Rightarrow> bool" where
  "op_edge (OpRegister req) i s t \<longleftrightarrow> rr_node_id req = i \<and> s = Offline \<and> t = Starting"
| "op_edge (OpHeartbeat hb) i s t \<longleftrightarrow> hb_node_id hb = i \<and> s \<in> {Starting, Healthy, Degraded} \<and> t \<in> {Healthy, Degraded}"
| "op_edge (OpDrain j) i s t \<longleftrightarrow> j = i \<and> t = Draining"
| "op_edge OpSweep i s t \<longleftrightarrow> s \<in> {Starting, Healthy, Degraded} \<and> t = Offline"
| "op_edge _ i s t \<longleftrightarrow> False"

definition op_moves :: "cp_op \<Rightarrow> registry \<Rightarrow> registry \<Rightarrow> bool" where
  "op_moves op N N' \<longleftrightarrow> (\<forall>i. case N i of
      None \<Rightarrow> \<forall>n'. N' i = Some n' \<longrightarrow> nd_state n' = Starting \<and> (\<exists>req. op = OpRegister req \<and> rr_node_id req = i)
    | Some n \<Rightarrow> \<exists>n'. N' i = Some n' \<and> (nd_state n' = nd_state n \<or> op_edge op i (nd_state n) (nd_state n')))"

lemma op_edge_lifecycle: "op_edge op i s t \<Longrightarrow> lifecycle_edge s t"
  by (cases op) (auto simp: lifecycle_edge_def)

lemma op_moves_lifecycle: "op_moves op N N' \<Longrightarrow> lifecycle N N'"
  unfolding lifecycle_def
proof (intro conjI allI impI)
  fix i n
  assume m: "op_moves op N N'" and n: "N i = Some n"
  from m [unfolded op_moves_def, rule_format, of i] n
  show "\<exists>n'. N' i = Some n' \<and> lifecycle_edge (nd_state n) (nd_state n')"
    using op_edge_lifecycle by (auto simp: lifecycle_edge_def)
next
  fix i n'
  assume m: "op_moves op N N'" and n: "N i = None" "N' i = Some n'"
  from m [unfolded op_moves_def, rule_format, of i] n show "nd_state n' = Starting" by simp
qed

lemma op_moves_refl [simp]: "op_moves op N N"
  by (auto simp: op_moves_def split: option.split)

lemma op_moves_upd:
  assumes "N i = Some n" "nd_state n' = nd_state n \<or> op_edge op i (nd_state n) (nd_state n')"
  shows "op_moves op N (N(i \<mapsto> n'))"
  using assms by (auto simp: op_moves_def split: option.split)

lemma op_moves_register: "op_moves (OpRegister req) N (spec_register req t N)"
  by (auto simp: op_moves_def spec_register_def renew_node_def new_node_def split: option.split)

lemma op_moves_drain: "op_moves (OpDrain i) N (spec_update i (state_node Draining t) N)"
  by (auto simp: op_moves_def spec_update_def state_node_def split: option.split)

lemma beat_node_state [simp]: "nd_state (beat_node hb t n) = nd_state n"
  by (simp add: beat_node_def)

lemma spec_heartbeat_state:
  "nd_state (spec_heartbeat p hb t u n) =
     reclassify_after_heartbeat (nd_state n) (hb_active_connections hb) (nd_max_connections n) p"
  by (simp add: spec_heartbeat_def Let_def state_node_def)

lemma reclassify_edge:
  "reclassify_after_heartbeat s active cap p = s \<or>
   op_edge (OpHeartbeat hb) (hb_node_id hb) s (reclassify_after_heartbeat s active cap p)"
  by (cases s) (simp_all add: reclassify_after_heartbeat_def Let_def)

lemma op_moves_heartbeat:
  assumes "N (hb_node_id hb) = Some n"
  shows "op_moves (OpHeartbeat hb) N (N(hb_node_id hb \<mapsto> beat_node hb t n))"
    and "op_moves (OpHeartbeat hb) N (N(hb_node_id hb \<mapsto> spec_heartbeat p hb t u n))"
  using op_moves_upd [of N "hb_node_id hb" n _ "OpHeartbeat hb"] assms reclassify_edge by (simp_all only: beat_node_state spec_heartbeat_state simp_thms)

lemma op_moves_swept:
  assumes "swept (sweep_hits p now) N N'"
  shows "op_moves OpSweep N N'"
  unfolding op_moves_def
proof
  fix i
  have "N' i = N i \<or> (\<exists>n t. N i = Some n \<and> sweep_hits p now n \<and> N' i = Some (state_node Offline t n))"
    using assms unfolding swept_def by blast
  then show "case N i of
      None \<Rightarrow> \<forall>n'. N' i = Some n' \<longrightarrow> nd_state n' = Starting \<and> (\<exists>req. OpSweep = OpRegister req \<and> rr_node_id req = i)
    | Some n \<Rightarrow> \<exists>n'. N' i = Some n' \<and> (nd_state n' = nd_state n \<or> op_edge OpSweep i (nd_state n) (nd_state n'))"
    by (auto simp: sweep_hits_def state_node_def split: option.split)
qed

section \<open>Histories\<close>

text \<open>
  \<open>keeps I nodes R m\<close>: however \<open>m\<close> ends, the invariant survives, the registry has
  changed by \<open>R\<close> and the bandwidth state is untouched.
\<close>

definition keeps :: "('s \<Rightarrow> bool) \<Rightarrow> ('s \<Rightarrow> registry) \<Rightarrow> (registry \<Rightarrow> registry \<Rightarrow> bool) \<Rightarrow>
    ('s CpState, 'e, 'a) io \<Rightarrow> bool" where
  "keeps I nodes R m \<longleftrightarrow> (\<forall>st r st'. I (cp_db st) \<longrightarrow> m st = (r, st') \<longrightarrow>
     I (cp_db st') \<and> R (nodes (cp_db st)) (nodes (cp_db st')) \<and>
     cp_allocators st' = cp_allocators st \<and> cp_counters st' = cp_counters st)"

lemma keepsD:
  assumes "keeps I nodes R m" "I (cp_db st)"
  shows "I (cp_db (snd (m st))) \<and> R (nodes (cp_db st)) (nodes (cp_db (snd (m st)))) \<and>
    cp_allocators (snd (m st)) = cp_allocators st \<and> cp_counters (snd (m st)) = cp_counters st"
  using assms unfolding keeps_def by (metis prod.collapse)

lemma keepsI:
  assumes "\<And>st. I (cp_db st) \<Longrightarrow> I (cp_db (snd (m st))) \<and> R (nodes (cp_db st)) (nodes (cp_db (snd (m st)))) \<and>
    cp_allocators (snd (m st)) = cp_allocators st \<and> cp_counters (snd (m st)) = cp_counters st"
  shows "keeps I nodes R m"
  unfolding keeps_def using assms by (metis snd_conv)

lemma keeps_pure [simp]:
  "keeps I nodes (=) (io_return x)" "keeps I nodes (=) (io_lift r)" "keeps I nodes (=) (publish n)"
  "keeps I nodes (=) (io_modify (\<lambda>st. st\<lparr>cp_gauges := g st\<rparr>))"
  by (simp_all add: keeps_def publish_def)

lemma keeps_option:
  "keeps I nodes R a \<Longrightarrow> (\<And>x. keeps I nodes R (f x)) \<Longrightarrow> keeps I nodes R (case x of None \<Rightarrow> a | Some y \<Rightarrow> f y)"
  by (cases x) simp_all

lemma keeps_bind_query:
  assumes "keeps I nodes (=) m" "\<And>x. keeps I nodes R (f x)" "\<And>N. R N N"
  shows "keeps I nodes R (io_bind m f)"
  unfolding keeps_def
proof (intro allI impI)
  fix st r st'
  assume st: "I (cp_db st)" and run: "io_bind m f st = (r, st')"
  obtain x s1 where 1: "m st = (x, s1)" by fastforce
  have a: "I (cp_db s1)" "nodes (cp_db s1) = nodes (cp_db st)"
    "cp_allocators s1 = cp_allocators st" "cp_counters s1 = cp_counters st"
    using assms(1) st 1 unfolding keeps_def by metis+
  show "I (cp_db st') \<and> R (nodes (cp_db st)) (nodes (cp_db st')) \<and>
      cp_allocators st' = cp_allocators st \<and> cp_counters st' = cp_counters st"
  proof (cases x)
    case (Inl e)
    then have "st' = s1" using run 1 by (simp add: io_bind_Inl)
    then show ?thesis using a assms(3) by simp
  next
    case (Inr y)
    then have "f y s1 = (r, st')" using run 1 by (simp add: io_bind_Inr)
    then show ?thesis using keepsD [OF assms(2) a(1), of y] a by simp
  qed
qed

lemma keeps_bind_update:
  assumes "keeps I nodes R m" "\<And>x. keeps I nodes (=) (f x)"
  shows "keeps I nodes R (io_bind m f)"
  unfolding keeps_def
proof (intro allI impI)
  fix st r st'
  assume st: "I (cp_db st)" and run: "io_bind m f st = (r, st')"
  obtain x s1 where 1: "m st = (x, s1)" by fastforce
  note a = keepsD [OF assms(1) st, unfolded 1 snd_conv]
  show "I (cp_db st') \<and> R (nodes (cp_db st)) (nodes (cp_db st')) \<and>
      cp_allocators st' = cp_allocators st \<and> cp_counters st' = cp_counters st"
  proof (cases x)
    case (Inl e)
    then have "st' = s1" using run 1 by (simp add: io_bind_Inl)
    then show ?thesis using a by simp
  next
    case (Inr y)
    then have "f y s1 = (r, st')" using run 1 by (simp add: io_bind_Inr)
    then show ?thesis using keepsD [OF assms(2) conjunct1 [OF a], of y] a by simp
  qed
qed

context node_repository
begin

lemma keeps_reads: "op_reads I nodes stamp op g \<Longrightarrow> keeps I nodes (=) (with_repo op)"
  unfolding keeps_def using with_repo_reads by metis

lemma keeps_updates:
  assumes "op_updates I nodes stamp (\<lambda>_. True) op f" "\<And>t N. R N (f t N)" "\<And>N. R N N"
  shows "keeps I nodes R (with_repo op)"
  unfolding keeps_def
proof (intro allI impI)
  fix st r st'
  assume "I (cp_db st)" and "with_repo op st = (r, st')"
  from with_repo_updates [OF assms(1) this(1) TrueI this(2)]
  show "I (cp_db st') \<and> R (nodes (cp_db st)) (nodes (cp_db st')) \<and>
      cp_allocators st' = cp_allocators st \<and> cp_counters st' = cp_counters st"
    using assms(2,3) by (cases r) simp_all
qed

lemmas keeps_repo = keeps_reads [OF get_law] keeps_reads [OF list_law]

lemma keeps_register_by:
  assumes "svc_repo svc = repo" "\<And>N. R N N" "\<And>t N. R N (spec_register req t N)"
  shows "keeps I nodes R (service_register svc req)"
  unfolding service_register_def assms(1)
  by (intro keeps_bind_update keeps_updates [OF register_law] assms(2,3)) (intro keeps_bind_query keeps_repo keeps_pure refl)+

lemma keeps_register: "svc_repo svc = repo \<Longrightarrow> keeps I nodes (op_moves (OpRegister req)) (service_register svc req)"
  by (rule keeps_register_by) (simp_all add: op_moves_register)

lemma keeps_drain_by:
  assumes "svc_repo svc = repo" "\<And>N. R N N" "\<And>t N. R N (spec_update i (state_node Draining t) N)"
  shows "keeps I nodes R (service_drain svc i)"
  unfolding service_drain_def assms(1)
  by (intro keeps_bind_update keeps_updates [OF draining_law] assms(2,3)) (intro keeps_bind_query keeps_repo keeps_option keeps_pure refl)+

lemma keeps_drain: "svc_repo svc = repo \<Longrightarrow> keeps I nodes (op_moves (OpDrain i)) (service_drain svc i)"
  by (rule keeps_drain_by) (simp_all add: op_moves_drain)

lemma keeps_get:
  assumes "svc_repo svc = repo"
  shows "keeps I nodes (=) (service_get svc i)"
  unfolding service_get_def assms Let_def
  by (intro keeps_bind_query keeps_repo keeps_option keeps_pure refl)

lemma keeps_list:
  assumes "svc_repo svc = repo"
  shows "keeps I nodes (=) (service_list svc)"
  unfolding service_list_def assms Let_def
  by (intro keeps_bind_query keeps_repo keeps_pure refl)

lemma keeps_select:
  assumes "svc_repo svc = repo"
  shows "keeps I nodes (=) (service_select svc)"
  unfolding service_select_def assms Let_def
  by (intro keeps_bind_query keeps_repo keeps_pure refl)

lemma service_heartbeat_any:
  assumes st: "I (cp_db st)" and repo: "svc_repo svc = repo"
    and run: "service_heartbeat svc hb st = (r, st')"
    and R: "\<And>N. R N N" "\<And>N n t. N (hb_node_id hb) = Some n \<Longrightarrow> R N (N(hb_node_id hb \<mapsto> beat_node hb t n))"
      "\<And>N n t u. N (hb_node_id hb) = Some n \<Longrightarrow>
         R N (N(hb_node_id hb \<mapsto> spec_heartbeat (svc_policy svc) hb t u n))"
  shows "I (cp_db st') \<and> R (nodes (cp_db st)) (nodes (cp_db st')) \<and>
    cp_allocators st' = cp_allocators st \<and> cp_counters st' = cp_counters st"
proof -
  let ?i = "hb_node_id hb"
  obtain g s1 where 1: "with_repo (repo_get repo ?i) st = (g, s1)" by fastforce
  note a = with_repo_reads [OF get_law st 1]
  show ?thesis
  proof (cases "\<exists>n. g = Inr (Some n)")
    case False
    then have "st' = s1" using run 1
      by (cases g) (auto simp: service_heartbeat_def repo io_bind_Inl io_bind_Inr split: option.splits)
    then show ?thesis using a R(1) by simp
  next
    case True
    then obtain n where g: "g = Inr (Some n)" by blast
    then have n: "nodes (cp_db st) ?i = Some n" using a by simp
    let ?next = "reclassify_after_heartbeat (nd_state n) (hb_active_connections hb) (nd_max_connections n) (svc_policy svc)"
    let ?set = "if ?next \<noteq> nd_state n then with_repo (repo_set_state repo ?i ?next) else io_return ()"
    obtain u s2 where 2: "with_repo (repo_apply_heartbeat repo hb) s1 = (u, s2)" by fastforce
    note b = with_repo_updates [OF heartbeat_law conjunct1 [OF a] TrueI 2]
    show ?thesis
    proof (cases u)
      case (Inl e)
      then have "st' = s2" using run 1 2 g by (simp add: service_heartbeat_def repo io_bind_Inl io_bind_Inr)
      then show ?thesis using a b Inl R(1) by simp
    next
      case (Inr x)
      then have n2: "nodes (cp_db s2) = (nodes (cp_db st))(?i \<mapsto> beat_node hb (stamp (cp_db st)) n)"
        using a b n by (simp add: spec_update_def)
      obtain v s3 where 3: "?set s2 = (v, s3)" by fastforce
      have c: "I (cp_db s3) \<and> R (nodes (cp_db st)) (nodes (cp_db s3)) \<and>
          cp_allocators s3 = cp_allocators st \<and> cp_counters s3 = cp_counters st"
      proof (cases "?next = nd_state n")
        case True
        then have "s3 = s2" using 3 by simp
        moreover have "R (nodes (cp_db st)) (nodes (cp_db s2))" unfolding n2 using n by (rule R(2))
        ultimately show ?thesis using a b by simp
      next
        case False
        then have 3: "with_repo (repo_set_state repo ?i ?next) s2 = (v, s3)" using 3 by simp
        note c = with_repo_updates [OF state_law conjunct1 [OF b] TrueI 3]
        have "nodes (cp_db s3) = nodes (cp_db s2) \<or> nodes (cp_db s3) =
            (nodes (cp_db st))(?i \<mapsto> spec_heartbeat (svc_policy svc) hb (stamp (cp_db st)) (stamp (cp_db s2)) n)"
          using c n2 False by (cases v) (simp_all add: spec_update_def spec_heartbeat_def Let_def)
        then have "R (nodes (cp_db st)) (nodes (cp_db s3))"
          using R(2,3) [of "nodes (cp_db st)" n] n n2 by (elim disjE) (simp_all only:)
        then show ?thesis using a b c by simp
      qed
      have "\<exists>w s4. st' = s3 \<or> with_repo (repo_get repo ?i) s3 = (w, s4) \<and>
          cp_db st' = cp_db s4 \<and> cp_allocators st' = cp_allocators s4 \<and> cp_counters st' = cp_counters s4"
        using run 1 2 3 g Inr
        by (auto simp: service_heartbeat_def repo io_bind_Inr Let_def split del: if_split cong: if_cong)
          (auto simp: io_bind_def split: sum.splits prod.splits option.splits)
      then show ?thesis
        using c with_repo_reads [OF get_law conjunct1 [OF c]] by fastforce
    qed
  qed
qed

lemma keeps_heartbeat_by:
  assumes "svc_repo svc = repo" "\<And>N. R N N"
    and "\<And>N n t. N (hb_node_id hb) = Some n \<Longrightarrow> R N (N(hb_node_id hb \<mapsto> beat_node hb t n))"
    and "\<And>N n t u. N (hb_node_id hb) = Some n \<Longrightarrow>
       R N (N(hb_node_id hb \<mapsto> spec_heartbeat (svc_policy svc) hb t u n))"
  shows "keeps I nodes R (service_heartbeat svc hb)"
  unfolding keeps_def using service_heartbeat_any [OF _ assms(1) _ assms(2-4)] by blast

lemma keeps_heartbeat: "svc_repo svc = repo \<Longrightarrow> keeps I nodes (op_moves (OpHeartbeat hb)) (service_heartbeat svc hb)"
  by (rule keeps_heartbeat_by) (simp_all add: op_moves_heartbeat)

lemma sweep_nodes_bandwidth:
  "sweep_nodes svc now ns k st = (r, st') \<Longrightarrow>
    cp_allocators st' = cp_allocators st \<and> cp_counters st' = cp_counters st"
  by (induction ns arbitrary: k st)
    (auto simp: io_bind_def with_repo_def split: if_splits prod.splits sum.splits)

lemma keeps_sweep: "svc_repo svc = repo \<Longrightarrow> keeps I nodes (op_moves OpSweep) (mark_stale_offline svc clock)"
  unfolding keeps_def
proof (intro allI impI)
  fix st r st'
  assume repo: "svc_repo svc = repo" and st: "I (cp_db st)" and run: "mark_stale_offline svc clock st = (r, st')"
  have "cp_allocators st' = cp_allocators st \<and> cp_counters st' = cp_counters st"
    using run sweep_nodes_bandwidth
    by (fastforce simp: mark_stale_offline_def io_bind_def with_repo_def split: prod.splits sum.splits)
  then show "I (cp_db st') \<and> op_moves OpSweep (nodes (cp_db st)) (nodes (cp_db st')) \<and>
      cp_allocators st' = cp_allocators st \<and> cp_counters st' = cp_counters st"
    using mark_stale_offline_ok [OF st repo run] op_moves_swept by blast
qed

lemma cp_exec_select_bandwidth:
  assumes repo: "svc_repo svc = repo" and st: "I (cp_db st)" and inv: "alloc_inv st G"
    and run: "cp_exec svc clock OpSelectBandwidth (st, G) = (st', G')"
  shows "I (cp_db st') \<and> nodes (cp_db st') = nodes (cp_db st) \<and> alloc_inv st' G'"
proof -
  obtain r s' where sel: "service_select_with_bandwidth svc st = (r, s')" by fastforce
  show ?thesis
  proof (cases r)
    case (Inl e)
    then have "with_repo (repo_list repo) st = (Inl e, s')"
      using sel by (auto simp: service_select_with_bandwidth_def repo io_bind_eq_Inl Let_def split: prod.splits)
    from with_repo_reads [OF list_law st this] alloc_inv_cong [of s' st G] inv Inl sel run
    show ?thesis by simp
  next
    case (Inr x)
    from service_select_with_bandwidth_ok [OF st repo inv sel [unfolded Inr]] sel run Inr
    show ?thesis by (cases x) simp_all
  qed
qed

lemma keeps_config:
  assumes "keeps I nodes R m" "I (cp_db st)" "alloc_inv st G"
  shows "I (cp_db (snd (m st))) \<and> R (nodes (cp_db st)) (nodes (cp_db (snd (m st)))) \<and> alloc_inv (snd (m st)) G"
  using keepsD [OF assms(1,2)] assms(3) alloc_inv_cong [of "snd (m st)" st G] by simp

lemma cp_exec_moves:
  assumes repo: "svc_repo svc = repo" and st: "I (cp_db st)" and inv: "alloc_inv st G"
    and run: "cp_exec svc clock op (st, G) = (st', G')"
  shows "I (cp_db st') \<and> op_moves op (nodes (cp_db st)) (nodes (cp_db st')) \<and> alloc_inv st' G'"
proof (cases op)
  case OpSelectBandwidth
  then show ?thesis using cp_exec_select_bandwidth [OF repo st inv] run by simp
next
  case (OpRelease g)
  then show ?thesis using run st inv release_guard_inv [OF inv, of g]
    by (auto simp: release_guard_def split: if_splits)
qed (use run keeps_config [OF keeps_register [OF repo] st inv] keeps_config [OF keeps_heartbeat [OF repo] st inv]
      keeps_config [OF keeps_drain [OF repo] st inv] keeps_config [OF keeps_get [OF repo] st inv]
      keeps_config [OF keeps_list [OF repo] st inv] keeps_config [OF keeps_select [OF repo] st inv]
      keeps_config [OF keeps_sweep [OF repo] st inv] in auto)

lemma cp_exec_ok:
  assumes "svc_repo svc = repo" "I (cp_db st)" "alloc_inv st G" "cp_exec svc clock op (st, G) = (st', G')"
  shows "I (cp_db st') \<and> lifecycle (nodes (cp_db st)) (nodes (cp_db st')) \<and> alloc_inv st' G'"
  using cp_exec_moves [OF assms] op_moves_lifecycle by blast

lemma cp_run_ok:
  assumes "svc_repo svc = repo" "I (cp_db st)" "alloc_inv st G" "cp_run svc clock ops (st, G) = (st', G')"
  shows "I (cp_db st') \<and> alloc_inv st' G'"
  using assms(2-4)
proof (induction ops arbitrary: st G)
  case (Cons op ops)
  obtain s1 G1 where 1: "cp_exec svc clock op (st, G) = (s1, G1)" by fastforce
  show ?case
    using cp_exec_ok [OF assms(1) Cons.prems(1,2) 1] Cons.IH [of s1 G1] Cons.prems(3) 1
    by (simp add: cp_run_def)
qed (simp add: cp_run_def)

lemma cp_run_draining:
  assumes "svc_repo svc = repo" "I (cp_db st)" "alloc_inv st G" "cp_run svc clock ops (st, G) = (st', G')"
    and "nodes (cp_db st) i = Some n" "nd_state n = Draining"
  shows "\<exists>n'. nodes (cp_db st') i = Some n' \<and> nd_state n' = Draining"
  using assms(2-6)
proof (induction ops arbitrary: st G n)
  case (Cons op ops)
  obtain s1 G1 where 1: "cp_exec svc clock op (st, G) = (s1, G1)" by fastforce
  note step = cp_exec_ok [OF assms(1) Cons.prems(1,2) 1]
  then obtain n1 where "nodes (cp_db s1) i = Some n1" "lifecycle_edge Draining (nd_state n1)"
    using Cons.prems(4,5) unfolding lifecycle_def by metis
  then have "nodes (cp_db s1) i = Some n1" "nd_state n1 = Draining" by (auto simp: lifecycle_edge_def)
  then show ?case
    using Cons.IH [of s1 G1 n1] step Cons.prems(3) 1 by (simp add: cp_run_def)
qed (simp add: cp_run_def)

end

section \<open>Properties\<close>

text \<open>
  C4. Consistency of the control plane over every history. Start from an empty database and run any
  sequence of registrations, heartbeats, drains, queries, selections, guard releases and sweeps, any of
  which may fail part-way: node ids stay unique, every stored row still decodes, and for each node the
  reserved bandwidth is exactly the sum of the guards still held and at most its allocator's limit.
\<close>

theorem control_plane_invariant:
  assumes "env_ok e"
    and "cp_run (from_repo_sql e p) (utc_now e) ops (service_start empty_db, {#}) = (st, G)"
  shows "distinct (map row_id (db_nodes (cp_db st))) \<and>
    (\<forall>r \<in> set (db_nodes (cp_db st)). \<exists>n. row_into_node e r = Inr n) \<and>
    (\<forall>i a. cp_allocators st i = Some a \<longrightarrow>
       unat (cp_counters st ! ba_reserved a) = cell_sum (ba_reserved a) G \<and>
       cell_sum (ba_reserved a) G \<le> unat (ba_limit a))"
proof -
  have "db_inv e (cp_db st) \<and> alloc_inv st G"
    using sqlite.cp_run_ok [OF from_repo_sql_sel(1) _ alloc_inv_start assms(2)] db_inv_empty [OF assms(1)] by simp
  then have "table_ok e (db_nodes (cp_db st))" and inv: "alloc_inv st G" by (simp_all add: db_inv_def)
  moreover have "unat (cp_counters st ! ba_reserved a) = cell_sum (ba_reserved a) G \<and>
      cell_sum (ba_reserved a) G \<le> unat (ba_limit a)" if "cp_allocators st i = Some a" for i a
    using alloc_invD(1,2) [OF inv that] alloc_invD(4) [OF inv, of "ba_reserved a"] by simp
  ultimately show ?thesis by (auto simp: table_ok_def row_ok_def)
qed

theorem control_plane_invariant_witness:
  "distinct (map row_id (db_nodes (cp_db (fst (cp_run (from_repo_sql sample_env HealthPolicy_default) (utc_now sample_env)
     [OpRegister sample_request, OpHeartbeat (sample_beat 2), OpRegister sample_request, OpSelectBandwidth, OpSweep]
     (service_start empty_db, {#}))))))"
  using control_plane_invariant [OF env_ok_sample prod.collapse [symmetric]] by blast

text \<open>
  C28. The lifecycle of a node, as implemented, operation by operation and whether the operation succeeds or fails
  part-way. No operation removes a node. Only a registration under its id creates a node, in state Starting. The
  state of an existing node changes only as follows: a registration under its id takes it from Offline to Starting;
  a heartbeat with its id takes it from Starting, Healthy or Degraded to Healthy or Degraded; a
  drain of it takes it to Draining; a sweep takes it from Starting, Healthy or Degraded to Offline. Every other
  operation, and every operation on another node, leaves the state alone. In particular no operation leads out of Draining.
\<close>

theorem lifecycle_transitions:
  assumes "db_inv e (cp_db st)" "alloc_inv st G"
    and "cp_exec (from_repo_sql e p) (utc_now e) op (st, G) = (st', G')"
  shows "case db_map e (cp_db st) i of
      None \<Rightarrow> (\<forall>n'. db_map e (cp_db st') i = Some n' \<longrightarrow>
        nd_state n' = Starting \<and> (\<exists>req. op = OpRegister req \<and> rr_node_id req = i))
    | Some n \<Rightarrow> \<exists>n'. db_map e (cp_db st') i = Some n' \<and> (nd_state n' = nd_state n \<or>
        (case op of
           OpRegister req \<Rightarrow> rr_node_id req = i \<and> (nd_state n, nd_state n') = (Offline, Starting)
         | OpHeartbeat hb \<Rightarrow> hb_node_id hb = i \<and>
             (nd_state n, nd_state n') \<in> {Starting, Healthy, Degraded} \<times> {Healthy, Degraded}
         | OpDrain j \<Rightarrow> j = i \<and> nd_state n' = Draining
         | OpSweep \<Rightarrow> (nd_state n, nd_state n') \<in> {Starting, Healthy, Degraded} \<times> {Offline}
         | _ \<Rightarrow> False))"
proof -
  have "op_moves op (db_map e (cp_db st)) (db_map e (cp_db st'))"
    using sqlite.cp_exec_moves [OF from_repo_sql_sel(1) assms] by blast
  then have "case db_map e (cp_db st) i of
      None \<Rightarrow> \<forall>n'. db_map e (cp_db st') i = Some n' \<longrightarrow> nd_state n' = Starting \<and> (\<exists>req. op = OpRegister req \<and> rr_node_id req = i)
    | Some n \<Rightarrow> \<exists>n'. db_map e (cp_db st') i = Some n' \<and> (nd_state n' = nd_state n \<or> op_edge op i (nd_state n) (nd_state n'))"
    unfolding op_moves_def by blast
  then show ?thesis
    by (cases op; cases "db_map e (cp_db st) i") auto
qed

theorem lifecycle_transitions_witness:
  "\<exists>n n'. db_map sample_env sample_db ''n1'' = Some n \<and>
     db_map sample_env (cp_db (fst (cp_exec (from_repo_sql sample_env HealthPolicy_default) (utc_now sample_env)
        (OpDrain ''n1'') (service_start sample_db, {#})))) ''n1'' = Some n' \<and>
     (nd_state n' = nd_state n \<or> nd_state n' = Draining)"
  using lifecycle_transitions [OF _ alloc_inv_start prod.collapse [symmetric], of sample_env sample_db
      HealthPolicy_default "OpDrain ''n1''" "''n1''"] sample_db_ok
  by auto

text \<open>
  C29. Draining is final, and a draining node gets no new connection: after a drain succeeds, whatever
  operations follow, the node stays Draining and no selection returns it, neither the plain one nor the one
  that reserves bandwidth.
\<close>

theorem drained_never_selected:
  assumes "db_inv e (cp_db st)" "alloc_inv st G"
    and "service_drain (from_repo_sql e p) i st = (Inr (Some n), st1)"
    and "cp_run (from_repo_sql e p) (utc_now e) ops (st1, G) = (st2, G2)"
  shows "(\<exists>n2. db_map e (cp_db st2) i = Some n2 \<and> nd_state n2 = Draining) \<and>
    (\<forall>m st3. service_select (from_repo_sql e p) st2 = (Inr (Some m), st3) \<longrightarrow> nd_id m \<noteq> i) \<and>
    (\<forall>s st3. service_select_with_bandwidth (from_repo_sql e p) st2 = (Inr (Some s), st3) \<longrightarrow> nd_id (sel_node s) \<noteq> i)"
proof -
  have d: "db_inv e (cp_db st1)" "db_map e (cp_db st1) i = Some n" "nd_state n = Draining"
    using sqlite.service_drain_ok [OF assms(1) from_repo_sql_sel(1) assms(3)]
    by (cases "db_map e (cp_db st) i"; simp add: state_node_def)+
  have a1: "alloc_inv st1 G"
    using keepsD [OF sqlite.keeps_drain [OF from_repo_sql_sel(1)] assms(1), of p i] assms(2,3)
      alloc_inv_cong [of st1 st G] by simp
  have i2: "db_inv e (cp_db st2)" "alloc_inv st2 G2"
    using sqlite.cp_run_ok [OF from_repo_sql_sel(1) d(1) a1 assms(4)] by simp_all
  obtain n2 where n2: "db_map e (cp_db st2) i = Some n2" "nd_state n2 = Draining"
    using sqlite.cp_run_draining [OF from_repo_sql_sel(1) d(1) a1 assms(4) d(2,3)] by blast
  moreover have "nd_id m \<noteq> i" if "service_select (from_repo_sql e p) st2 = (Inr (Some m), st3)" for m st3
    using sqlite.service_select_ok [OF i2(1) from_repo_sql_sel(1) that] n2 by (auto simp: is_selectable_def)
  moreover have "nd_id (sel_node s) \<noteq> i" if "service_select_with_bandwidth (from_repo_sql e p) st2 = (Inr (Some s), st3)" for s st3
    using sqlite.service_select_with_bandwidth_ok [OF i2(1) from_repo_sql_sel(1) i2(2) that] n2 by (auto simp: is_selectable_def)
  ultimately show ?thesis by blast
qed

theorem drained_never_selected_witness:
  "\<exists>n st1. service_drain (from_repo_sql sample_env HealthPolicy_default) ''n1'' (service_start sample_db) = (Inr (Some n), st1) \<and>
     (\<exists>n2. db_map sample_env (cp_db (fst (cp_run (from_repo_sql sample_env HealthPolicy_default) (utc_now sample_env)
        [OpRegister sample_request, OpHeartbeat (sample_beat 1)] (st1, {#})))) ''n1'' = Some n2 \<and> nd_state n2 = Draining)"
proof -
  let ?svc = "from_repo_sql sample_env HealthPolicy_default"
  obtain r st1 where run: "service_drain ?svc ''n1'' (service_start sample_db) = (Inr r, st1)"
    using totalD [OF quiet.total_drain [OF from_repo_sql_sel(1)], of sample_env "service_start sample_db"
        HealthPolicy_default "''n1''"] sample_quiet(1) by auto
  then obtain n where n: "r = Some n"
    using sqlite.service_drain_ok [OF _ from_repo_sql_sel(1) run] sample_db_ok by simp
  show ?thesis
    using drained_never_selected [OF _ alloc_inv_start run [unfolded n] prod.collapse [symmetric]] sample_db_ok(1) run n
    by auto
qed

text \<open>
  C30. Selection with a reservation hands out bandwidth safely and fairly: the guard it returns is
  for the node's share and is added to the ledger without exceeding any limit; the node is selectable, and every
  selectable node with a higher score has no room for its share. If it answers none, no selectable
  node has room.
\<close>

theorem select_with_bandwidth_effect:
  assumes "db_inv e (cp_db st)" "alloc_inv st G"
    and "service_select_with_bandwidth (from_repo_sql e p) st = (Inr r, st')"
  shows "case r of
      None \<Rightarrow> alloc_inv st' G \<and> (\<forall>i m. db_map e (cp_db st) i = Some m \<longrightarrow> is_selectable m \<longrightarrow> refused st' m)
    | Some s \<Rightarrow> alloc_inv st' (add_mset (sel_guard s) G) \<and>
        db_map e (cp_db st) (nd_id (sel_node s)) = Some (sel_node s) \<and> is_selectable (sel_node s) \<and>
        bg_rate (sel_guard s) = bandwidth_share (sel_node s) \<and>
        (\<forall>i m. db_map e (cp_db st) i = Some m \<longrightarrow> is_selectable m \<longrightarrow>
           score (sel_node s) ScoreWeights_default < score m ScoreWeights_default \<longrightarrow> refused st' m)"
  using sqlite.service_select_with_bandwidth_ok [OF assms(1) from_repo_sql_sel(1) assms(2,3)]
  by (cases r) simp_all

theorem select_with_bandwidth_effect_witness:
  "\<exists>r st'. service_select_with_bandwidth (from_repo_sql sample_env HealthPolicy_default) (service_start sample_db) = (Inr r, st') \<and>
     (case r of None \<Rightarrow> alloc_inv st' {#} | Some s \<Rightarrow> alloc_inv st' {#sel_guard s#})"
proof -
  obtain ns st1 where "with_repo (repo_list (SqliteNodeRepository sample_env)) (service_start sample_db) = (Inr ns, st1)"
    using totalD [OF quiet.total_repo(2), of sample_env "service_start sample_db"] sample_quiet(1) by auto
  then obtain r st' where run: "service_select_with_bandwidth (from_repo_sql sample_env HealthPolicy_default)
      (service_start sample_db) = (Inr r, st')"
    by (simp add: service_select_with_bandwidth_def io_bind_Inr Let_def case_prod_beta)
  with select_with_bandwidth_effect [OF _ alloc_inv_start run] sample_db_ok(1) show ?thesis
    by (cases r) auto
qed

end
