(* ===== verification/CP_Concurrent.thy ===== *)
theory CP_Concurrent
  imports CP_Lifecycle
begin

text \<open>
  Requests of the control plane run concurrently: between two SQL statements of one request another one's may run.
  The service's operations are given again as tasks that stop at every statement; run alone, a
  task is the operation of \<^verbatim>\<open>service.rs\<close> it stands for. A schedule then interleaves any number of them.
\<close>

section \<open>Tasks\<close>

datatype cp_result = Beaten | Drained "Node option" | Registered Node | Listed "Node list" | Got "Node option" |
  Selected "Node option" | Swept nat | Failed RepoError

datatype 's task = Finished cp_result | Await "'s \<Rightarrow> 's \<times> 's task"

primrec run_task :: "'s task \<Rightarrow> 's \<Rightarrow> cp_result \<times> 's" where
  "run_task (Finished r) = (\<lambda>st. (r, st))"
| "run_task (Await f) = (\<lambda>st. case (map_prod id run_task \<circ> f) st of (st', g) \<Rightarrow> g st')"

definition await :: "('s, RepoError, 'a) io \<Rightarrow> ('a \<Rightarrow> 's \<Rightarrow> 's \<times> 's task) \<Rightarrow> 's task" where
  "await m k = Await (\<lambda>st. case m st of (Inl e, st') \<Rightarrow> (st', Finished (Failed e)) | (Inr x, st') \<Rightarrow> k x st')"

definition goto :: "'s task \<Rightarrow> 's \<Rightarrow> 's \<times> 's task" where
  "goto t st = (st, t)"

definition published :: "Node option \<Rightarrow> cp_result \<Rightarrow> 's CpState \<Rightarrow> 's CpState \<times> 's CpState task" where
  "published n r st = (case n of None \<Rightarrow> st | Some n \<Rightarrow> st\<lparr>cp_gauges := record_node n (cp_gauges st)\<rparr>, Finished r)"

definition heartbeat_task :: "'s ControlPlaneService \<Rightarrow> Heartbeat \<Rightarrow> 's CpState task" where
  "heartbeat_task svc hb =
     await (with_repo (repo_get (svc_repo svc) (hb_node_id hb))) (\<lambda>current.
       case current of
         None \<Rightarrow> goto (Finished Beaten)
       | Some n \<Rightarrow> goto (await (with_repo (repo_apply_heartbeat (svc_repo svc) hb)) (\<lambda>_.
           let next = reclassify_after_heartbeat (nd_state n) (hb_active_connections hb)
                        (nd_max_connections n) (svc_policy svc);
               fin = await (with_repo (repo_get (svc_repo svc) (hb_node_id hb))) (\<lambda>again. published again Beaten) in
           goto (if next \<noteq> nd_state n
                 then await (with_repo (repo_set_state (svc_repo svc) (hb_node_id hb) next)) (\<lambda>_. goto fin)
                 else fin))))"

definition drain_task :: "'s ControlPlaneService \<Rightarrow> string \<Rightarrow> 's CpState task" where
  "drain_task svc i =
     await (with_repo (repo_set_draining (svc_repo svc) i)) (\<lambda>_.
     goto (await (with_repo (repo_get (svc_repo svc) i)) (\<lambda>n. published n (Drained n))))"

definition register_task :: "'s ControlPlaneService \<Rightarrow> RegisterRequest \<Rightarrow> 's CpState task" where
  "register_task svc req =
     await (with_repo (repo_register (svc_repo svc) req)) (\<lambda>_.
     goto (await (with_repo (repo_get (svc_repo svc) (rr_node_id req))) (\<lambda>found.
       case found of None \<Rightarrow> goto (Finished (Failed NodeDisappeared)) | Some n \<Rightarrow> published found (Registered n))))"

definition list_task :: "'s ControlPlaneService \<Rightarrow> 's CpState task" where
  "list_task svc =
     await (with_repo (repo_list (svc_repo svc))) (\<lambda>nodes st.
       (st\<lparr>cp_gauges := fold record_node nodes (cp_gauges st)\<rparr>, Finished (Listed nodes)))"

definition get_task :: "'s ControlPlaneService \<Rightarrow> string \<Rightarrow> 's CpState task" where
  "get_task svc i = await (with_repo (repo_get (svc_repo svc) i)) (\<lambda>n. published n (Got n))"

definition select_task :: "'s ControlPlaneService \<Rightarrow> 's CpState task" where
  "select_task svc =
     await (with_repo (repo_list (svc_repo svc))) (\<lambda>nodes.
       let eligible = filter is_selectable nodes in
       goto (Finished (Selected (HealthAwareSelector_select (HealthAwareSelector_new (svc_weights svc)) eligible))))"

fun sweep_task_nodes :: "'s ControlPlaneService \<Rightarrow> DateTime \<Rightarrow> Node list \<Rightarrow> nat \<Rightarrow> 's CpState task" where
  "sweep_task_nodes svc now [] marked = Finished (Swept marked)"
| "sweep_task_nodes svc now (n # ns) marked =
     (if sweep_hits (svc_policy svc) now n
      then await (with_repo (repo_mark_offline (svc_repo svc) (nd_id n))) (\<lambda>_. goto (sweep_task_nodes svc now ns (marked + 1)))
      else sweep_task_nodes svc now ns marked)"

definition sweep_task :: "'s ControlPlaneService \<Rightarrow> ('s \<Rightarrow> DateTime \<times> 's) \<Rightarrow> 's CpState task" where
  "sweep_task svc clock =
     await (io_bind (with_repo (\<lambda>db. case clock db of (now, db) \<Rightarrow> (Inr now, db))) (\<lambda>now.
            io_bind (with_repo (repo_list (svc_repo svc))) (\<lambda>nodes. io_return (now, nodes))))
       (\<lambda>(now, nodes). goto (sweep_task_nodes svc now nodes 0))"

section \<open>Run alone, a task is its operation\<close>

lemma run_await:
  "run_task (await m k) st = (case m st of (Inl e, st') \<Rightarrow> (Failed e, st')
     | (Inr x, st') \<Rightarrow> (case k x st' of (st'', t) \<Rightarrow> run_task t st''))"
  by (auto simp: await_def split: sum.split prod.split)

definition outcome :: "('a \<Rightarrow> cp_result) \<Rightarrow> (RepoError + 'a) \<times> 's \<Rightarrow> cp_result \<times> 's" where
  "outcome f r = (case r of (Inl e, st) \<Rightarrow> (Failed e, st) | (Inr x, st) \<Rightarrow> (f x, st))"

lemma heartbeat_task_alone: "run_task (heartbeat_task svc hb) st = outcome (\<lambda>_. Beaten) (service_heartbeat svc hb st)"
  unfolding heartbeat_task_def service_heartbeat_def Let_def
  by (auto simp: run_await io_bind_def outcome_def goto_def published_def publish_def split: sum.split prod.split option.split)

lemma drain_task_alone: "run_task (drain_task svc i) st = outcome Drained (service_drain svc i st)"
  unfolding drain_task_def service_drain_def
  by (auto simp: run_await io_bind_def outcome_def goto_def published_def publish_def split: sum.split prod.split option.split)

lemma register_task_alone: "run_task (register_task svc req) st = outcome Registered (service_register svc req st)"
  unfolding register_task_def service_register_def
  by (auto simp: run_await io_bind_def outcome_def goto_def published_def publish_def split: sum.split prod.split option.split)

lemma list_task_alone: "run_task (list_task svc) st = outcome Listed (service_list svc st)"
  unfolding list_task_def service_list_def
  by (auto simp: run_await io_bind_def outcome_def split: sum.split prod.split)

lemma get_task_alone: "run_task (get_task svc i) st = outcome Got (service_get svc i st)"
  unfolding get_task_def service_get_def
  by (auto simp: run_await io_bind_def outcome_def published_def publish_def split: sum.split prod.split option.split)

lemma select_task_alone: "run_task (select_task svc) st = outcome Selected (service_select svc st)"
  unfolding select_task_def service_select_def Let_def
  by (auto simp: run_await io_bind_def outcome_def goto_def split: sum.split prod.split)

lemma sweep_task_nodes_alone: "run_task (sweep_task_nodes svc now ns marked) st = outcome Swept (sweep_nodes svc now ns marked st)"
  by (induction svc now ns marked arbitrary: st rule: sweep_task_nodes.induct)
    (auto simp: run_await io_bind_def outcome_def goto_def split: sum.split prod.split)

lemma sweep_task_alone: "run_task (sweep_task svc clock) st = outcome Swept (mark_stale_offline svc clock st)"
  unfolding sweep_task_def mark_stale_offline_def
  by (auto simp: run_await io_bind_def goto_def sweep_task_nodes_alone outcome_def split: sum.split prod.split)

section \<open>Schedules\<close>

text \<open>A schedule names, at each point, the task that runs its next statement.\<close>

fun schedule :: "nat list \<Rightarrow> 's \<times> 's task list \<Rightarrow> 's \<times> 's task list" where
  "schedule [] c = c"
| "schedule (i # is) (st, ts) =
     (if i < length ts then
        (case ts ! i of
           Finished r \<Rightarrow> schedule is (st, ts)
         | Await f \<Rightarrow> (case f st of (st', t) \<Rightarrow> schedule is (st', ts[i := t])))
      else schedule is (st, ts))"

inductive keeps_task :: "('s \<Rightarrow> bool) \<Rightarrow> 's task \<Rightarrow> bool" for P :: "'s \<Rightarrow> bool" where
  "keeps_task P (Finished r)"
| "(\<And>st. P st \<Longrightarrow> P (fst (f st)) \<and> keeps_task P (snd (f st))) \<Longrightarrow> keeps_task P (Await f)"

inductive_simps keeps_task_simps: "keeps_task P (Finished r)" "keeps_task P (Await f)"

declare keeps_task_simps(1) [simp]

lemma schedule_keeps:
  "P st \<Longrightarrow> \<forall>t \<in> set ts. keeps_task P t \<Longrightarrow> schedule is (st, ts) = (st', ts') \<Longrightarrow> P st' \<and> (\<forall>t \<in> set ts'. keeps_task P t)"
proof (induction "is" "(st, ts)" arbitrary: st ts rule: schedule.induct)
  case (2 i "is" st ts)
  show ?case
  proof (cases "i < length ts")
    case True
    show ?thesis
    proof (cases "ts ! i")
      case (Finished r)
      then show ?thesis using 2(1) [OF True Finished 2(4,5)] 2(6) True by simp
    next
      case (Await f)
      obtain st1 t where f: "f st = (st1, t)" by fastforce
      have "keeps_task P (Await f)" using 2(5) True Await by (metis nth_mem)
      then have k: "P st1 \<and> keeps_task P t" using 2(4) f by (metis keeps_task_simps(2) fst_conv snd_conv)
      have "\<forall>t' \<in> set (ts[i := t]). keeps_task P t'" using 2(5) k set_update_subset_insert [of ts i t] by auto
      then show ?thesis using 2(2) [OF True Await f [symmetric]] 2(6) f k True Await by simp
    qed
  next
    case False
    then show ?thesis using 2(3) [OF False 2(4,5)] 2(6) by simp
  qed
qed simp


text \<open>The same for a single call and for what runs between two calls, with rules that follow a task's text.\<close>

definition keeps_io :: "('s \<Rightarrow> bool) \<Rightarrow> ('s, 'e, 'a) io \<Rightarrow> bool" where
  "keeps_io P m \<longleftrightarrow> (\<forall>st. P st \<longrightarrow> P (snd (m st)))"

definition keeps_cont :: "('s \<Rightarrow> bool) \<Rightarrow> ('s \<Rightarrow> 's \<times> 's task) \<Rightarrow> bool" where
  "keeps_cont P c \<longleftrightarrow> (\<forall>st. P st \<longrightarrow> P (fst (c st)) \<and> keeps_task P (snd (c st)))"

lemma keeps_io_return: "keeps_io P (io_return x)"
  by (simp add: keeps_io_def)

lemma keeps_io_bind:
  assumes "keeps_io P m" "\<And>x. keeps_io P (f x)"
  shows "keeps_io P (io_bind m f)"
  unfolding keeps_io_def
proof (intro allI impI)
  fix st
  assume st: "P st"
  obtain r s1 where 1: "m st = (r, s1)" by fastforce
  have "P s1" using assms(1) st 1 unfolding keeps_io_def by (metis snd_conv)
  then show "P (snd (io_bind m f st))"
    using assms(2) 1 unfolding keeps_io_def by (cases r) (simp_all add: io_bind_def)
qed

lemma keeps_task_await:
  assumes "keeps_io P m" "\<And>x. keeps_cont P (k x)"
  shows "keeps_task P (await m k)"
proof -
  have "P (fst (case m st of (Inl e, st') \<Rightarrow> (st', Finished (Failed e)) | (Inr x, st') \<Rightarrow> k x st')) \<and>
      keeps_task P (snd (case m st of (Inl e, st') \<Rightarrow> (st', Finished (Failed e)) | (Inr x, st') \<Rightarrow> k x st'))"
    if "P st" for st
  proof -
    obtain r s1 where 1: "m st = (r, s1)" by fastforce
    have "P s1" using assms(1) that 1 unfolding keeps_io_def by (metis snd_conv)
    then show ?thesis using assms(2) 1 unfolding keeps_cont_def by (cases r) simp_all
  qed
  then show ?thesis unfolding await_def keeps_task_simps by blast
qed

lemma keeps_cont_goto: "keeps_task P t \<Longrightarrow> keeps_cont P (goto t)"
  by (simp add: goto_def keeps_cont_def)

lemma keeps_task_finished: "keeps_task P (Finished r)"
  by simp

lemma keeps_task_if: "keeps_task P t \<Longrightarrow> keeps_task P u \<Longrightarrow> keeps_task P (if b then t else u)"
  by simp

lemma keeps_cont_option:
  "keeps_cont P c \<Longrightarrow> (\<And>y. keeps_cont P (d y)) \<Longrightarrow> keeps_cont P (case x of None \<Rightarrow> c | Some y \<Rightarrow> d y)"
  by (cases x) simp_all

lemma keeps_cont_prod: "(\<And>y z. keeps_cont P (d y z)) \<Longrightarrow> keeps_cont P (case x of (y, z) \<Rightarrow> d y z)"
  by (cases x) simp

lemmas keeps_task_rules = keeps_task_await keeps_task_finished keeps_task_if
  keeps_cont_goto keeps_cont_option keeps_cont_prod keeps_io_bind keeps_io_return

section \<open>What holds under every interleaving\<close>

datatype cp_request = ReqRegister RegisterRequest | ReqHeartbeat Heartbeat | ReqDrain string |
  ReqList | ReqGet string | ReqSelect | ReqSweep

fun request_task :: "'s ControlPlaneService \<Rightarrow> ('s \<Rightarrow> DateTime \<times> 's) \<Rightarrow> cp_request \<Rightarrow> 's CpState task" where
  "request_task svc clock (ReqRegister req) = register_task svc req"
| "request_task svc clock (ReqHeartbeat hb) = heartbeat_task svc hb"
| "request_task svc clock (ReqDrain i) = drain_task svc i"
| "request_task svc clock ReqList = list_task svc"
| "request_task svc clock (ReqGet i) = get_task svc i"
| "request_task svc clock ReqSelect = select_task svc"
| "request_task svc clock ReqSweep = sweep_task svc clock"

text \<open>The registry is consistent, has lost none of the nodes of \<open>D\<close>, and the bandwidth ledger is that of \<open>st0\<close>.\<close>

definition retains :: "('s \<Rightarrow> bool) \<Rightarrow> ('s \<Rightarrow> registry) \<Rightarrow> string set \<Rightarrow> 's CpState \<Rightarrow> 's CpState \<Rightarrow> bool" where
  "retains I nodes D st0 st \<longleftrightarrow> I (cp_db st) \<and> D \<subseteq> dom (nodes (cp_db st)) \<and>
     cp_allocators st = cp_allocators st0 \<and> cp_counters st = cp_counters st0"

lemma retains_keeps:
  assumes "keeps I nodes (\<lambda>N N'. dom N \<subseteq> dom N') m" "retains I nodes D st0 st"
  shows "retains I nodes D st0 (snd (m st))"
proof -
  have st: "I (cp_db st)" "D \<subseteq> dom (nodes (cp_db st))" using assms(2) by (simp_all add: retains_def)
  note k = keepsD [OF assms(1) st(1)]
  show ?thesis
    unfolding retains_def using k subset_trans [OF st(2) conjunct1 [OF conjunct2 [OF k]]] assms(2)
    by (simp add: retains_def)
qed

lemma keeps_weaken_eq:
  fixes I :: "'s \<Rightarrow> bool"
  assumes "keeps I nodes (=) m"
  shows "keeps I nodes (\<lambda>N N'. dom N \<subseteq> dom N') m"
proof (rule keepsI)
  fix st :: "'s CpState"
  assume "I (cp_db st)"
  from keepsD [OF assms this] show "I (cp_db (snd (m st))) \<and> dom (nodes (cp_db st)) \<subseteq> dom (nodes (cp_db (snd (m st)))) \<and>
      cp_allocators (snd (m st)) = cp_allocators st \<and> cp_counters (snd (m st)) = cp_counters st"
    by simp
qed

lemma retains_published: "keeps_cont (retains I nodes D st0) (published n r)"
  by (auto simp: keeps_cont_def published_def retains_def split: option.split)

lemma retains_listed: "keeps_cont (retains I nodes D st0) (\<lambda>st. (st\<lparr>cp_gauges := g st\<rparr>, Finished r))"
  by (simp add: keeps_cont_def retains_def)

lemma dom_spec_update [simp]: "dom (spec_update i f N) = dom N"
  by (auto simp: spec_update_def split: if_splits)

lemma dom_spec_register: "dom N \<subseteq> dom (spec_register req t N)"
  by (auto simp: spec_register_def)

context node_repository
begin

lemma retains_reads: "op_reads I nodes stamp op g \<Longrightarrow> keeps_io (retains I nodes D st0) (with_repo op)"
  unfolding keeps_io_def using retains_keeps [OF keeps_weaken_eq [OF keeps_reads]] by blast

lemma retains_updates:
  assumes "op_updates I nodes stamp (\<lambda>_. True) op f" "\<And>t N. dom N \<subseteq> dom (f t N)"
  shows "keeps_io (retains I nodes D st0) (with_repo op)"
  unfolding keeps_io_def using retains_keeps [OF keeps_updates [OF assms(1)]] assms(2) by simp

lemma retains_clock: "keeps_io (retains I nodes D st0) (with_repo (\<lambda>db. case clock db of (now, db) \<Rightarrow> (Inr now, db)))"
  using clock_reads by (auto simp: keeps_io_def retains_def with_repo_def split: prod.split)

lemma retains_repo:
  "keeps_io (retains I nodes D st0) (with_repo (repo_get repo i))"
  "keeps_io (retains I nodes D st0) (with_repo (repo_list repo))"
  "keeps_io (retains I nodes D st0) (with_repo (repo_register repo req))"
  "keeps_io (retains I nodes D st0) (with_repo (repo_apply_heartbeat repo hb))"
  "keeps_io (retains I nodes D st0) (with_repo (repo_set_draining repo i))"
  "keeps_io (retains I nodes D st0) (with_repo (repo_mark_offline repo i))"
  "keeps_io (retains I nodes D st0) (with_repo (repo_set_state repo i t))"
  by (rule retains_reads [OF get_law] retains_reads [OF list_law] retains_updates [OF register_law dom_spec_register]
      retains_updates [OF heartbeat_law] retains_updates [OF draining_law] retains_updates [OF offline_law]
      retains_updates [OF state_law]; simp)+

lemma keeps_task_sweep_nodes:
  assumes "svc_repo svc = repo"
  shows "keeps_task (retains I nodes D st0) (sweep_task_nodes svc now ns marked)"
proof (induction ns arbitrary: marked)
  case (Cons n ns)
  show ?case unfolding sweep_task_nodes.simps assms by (intro keeps_task_rules retains_repo Cons.IH)
qed simp

lemma keeps_request_task:
  assumes "svc_repo svc = repo"
  shows "keeps_task (retains I nodes D st0) (request_task svc clock q)"
  by (cases q; simp only: request_task.simps register_task_def heartbeat_task_def drain_task_def sweep_task_def
        list_task_def get_task_def select_task_def Let_def assms;
      intro keeps_task_rules retains_repo retains_published retains_listed retains_clock keeps_task_sweep_nodes assms)

end

section \<open>What an interleaving can break\<close>

context faultless_repository
begin

lemma get_step:
  assumes "I (cp_db st)"
  obtains st' where "with_repo (repo_get repo i) st = (Inr (nodes (cp_db st) i), st')" "I (cp_db st')"
    "nodes (cp_db st') = nodes (cp_db st)"
proof -
  obtain x st' where 1: "with_repo (repo_get repo i) st = (Inr x, st')" using totalD [OF total_repo(1) assms] by blast
  from with_repo_reads [OF get_law assms 1] 1 that show ?thesis by simp
qed

lemma update_step:
  assumes "op_updates I nodes stamp (\<lambda>_. True) op f" "\<And>s. I s \<Longrightarrow> \<exists>x s'. op s = (Inr x, s')" "I (cp_db st)"
  obtains st' where "with_repo op st = (Inr (), st')" "I (cp_db st')"
    "nodes (cp_db st') = f (stamp (cp_db st)) (nodes (cp_db st))"
proof -
  obtain x st' where 1: "with_repo op st = (Inr x, st')" using totalD [OF total_updates [OF assms(1,2)] assms(3)] by blast
  from with_repo_updates [OF assms(1,3) TrueI 1] 1 that show ?thesis by simp
qed

lemma heartbeat_after_drain:
  assumes repo: "svc_repo svc = repo" and st: "I (cp_db st)" and n: "nodes (cp_db st) (hb_node_id hb) = Some n"
    and nxt: "next = reclassify_after_heartbeat (nd_state n) (hb_active_connections hb) (nd_max_connections n) (svc_policy svc)"
      "next \<noteq> nd_state n"
  shows "\<exists>d st' n'. schedule [0, 1, 1, 0, 0, 0] (st, [heartbeat_task svc hb, drain_task svc (hb_node_id hb)]) =
      (st', [Finished Beaten, Finished (Drained (Some d))]) \<and> nd_state d = Draining \<and>
      nodes (cp_db st') (hb_node_id hb) = Some n' \<and> nd_state n' = next"
proof -
  let ?i = "hb_node_id hb"
  obtain s1 where 1: "with_repo (repo_get repo ?i) st = (Inr (Some n), s1)" "I (cp_db s1)"
      "nodes (cp_db s1) = nodes (cp_db st)"
    using get_step [OF st, of ?i] n by auto
  obtain s2 where 2: "with_repo (repo_set_draining repo ?i) s1 = (Inr (), s2)" "I (cp_db s2)"
      "nodes (cp_db s2) = spec_update ?i (state_node Draining (stamp (cp_db s1))) (nodes (cp_db st))"
    using update_step [OF draining_law draining_succeeds 1(2)] 1(3) by metis
  define d where "d = state_node Draining (stamp (cp_db s1)) n"
  obtain s3 where 3: "with_repo (repo_get repo ?i) s2 = (Inr (Some d), s3)" "I (cp_db s3)"
      "nodes (cp_db s3) = nodes (cp_db s2)"
    using get_step [OF 2(2), of ?i] n 2(3) by (auto simp: d_def)
  define s4 where "s4 = s3\<lparr>cp_gauges := record_node d (cp_gauges s3)\<rparr>"
  have s4: "I (cp_db s4)" "nodes (cp_db s4) ?i = Some d" using 2(3) 3(2,3) n by (simp_all add: s4_def d_def)
  obtain s5 where 5: "with_repo (repo_apply_heartbeat repo hb) s4 = (Inr (), s5)" "I (cp_db s5)"
      "nodes (cp_db s5) = spec_update ?i (beat_node hb (stamp (cp_db s4))) (nodes (cp_db s4))"
    using update_step [OF heartbeat_law heartbeat_succeeds s4(1)] by metis
  obtain s6 where 6: "with_repo (repo_set_state repo ?i next) s5 = (Inr (), s6)" "I (cp_db s6)"
      "nodes (cp_db s6) = spec_update ?i (state_node next (stamp (cp_db s5))) (nodes (cp_db s5))"
    using update_step [OF state_law state_succeeds 5(2)] by metis
  define n' where "n' = state_node next (stamp (cp_db s5)) (beat_node hb (stamp (cp_db s4)) d)"
  have n': "nodes (cp_db s6) ?i = Some n'" using 5(3) 6(3) s4(2) by (simp add: n'_def)
  obtain s7 where 7: "with_repo (repo_get repo ?i) s6 = (Inr (Some n'), s7)"
      "nodes (cp_db s7) = nodes (cp_db s6)"
    using get_step [OF 6(2), of ?i] n' by auto
  have "schedule [0, 1, 1, 0, 0, 0] (st, [heartbeat_task svc hb, drain_task svc ?i]) =
      (s7\<lparr>cp_gauges := record_node n' (cp_gauges s7)\<rparr>, [Finished Beaten, Finished (Drained (Some d))])"
    using 1(1) 2(1) 3(1) 5(1) 6(1) 7(1) nxt
    by (simp add: heartbeat_task_def drain_task_def await_def goto_def published_def Let_def repo s4_def)
  moreover have "nd_state d = Draining" "nd_state n' = next" by (simp_all add: d_def n'_def state_node_def)
  ultimately show ?thesis using n' 7(2) by auto
qed

lemma drain_leaves:
  assumes repo: "svc_repo svc = repo" and st: "I (cp_db st)" and n: "nodes (cp_db st) i = Some n"
  shows "\<exists>st' t. run_task (drain_task svc i) st = (Drained (Some (state_node Draining t n)), st') \<and> I (cp_db st') \<and>
    nodes (cp_db st') = (nodes (cp_db st))(i \<mapsto> state_node Draining t n)"
proof -
  obtain x st' where 1: "service_drain svc i st = (Inr x, st')" using totalD [OF total_drain [OF repo] st] by blast
  from service_drain_ok [OF st repo 1] 1 n show ?thesis by (auto simp: drain_task_alone outcome_def)
qed

lemma heartbeat_leaves:
  assumes repo: "svc_repo svc = repo" and st: "I (cp_db st)" and n: "nodes (cp_db st) (hb_node_id hb) = Some n"
  shows "\<exists>st' t u. run_task (heartbeat_task svc hb) st = (Beaten, st') \<and> I (cp_db st') \<and>
    nodes (cp_db st') = (nodes (cp_db st))(hb_node_id hb \<mapsto> spec_heartbeat (svc_policy svc) hb t u n)"
proof -
  obtain x st' where 1: "service_heartbeat svc hb st = (Inr x, st')" using totalD [OF total_heartbeat [OF repo] st] by blast
  from service_heartbeat_ok [OF st repo n] 1 show ?thesis by (auto simp: heartbeat_task_alone outcome_def)
qed

lemma drain_last:
  assumes repo: "svc_repo svc = repo" and st: "I (cp_db st)" and n: "nodes (cp_db st) (hb_node_id hb) = Some n"
  shows "\<exists>n'. nodes (cp_db (snd (run_task (drain_task svc (hb_node_id hb)) (snd (run_task (heartbeat_task svc hb) st)))))
    (hb_node_id hb) = Some n' \<and> nd_state n' = Draining"
proof -
  obtain s1 n1 where 1: "run_task (heartbeat_task svc hb) st = (Beaten, s1)" "I (cp_db s1)"
      "nodes (cp_db s1) (hb_node_id hb) = Some n1"
    using heartbeat_leaves [OF assms] by auto
  from drain_leaves [OF repo 1(2,3)] 1(1) show ?thesis by (auto simp: state_node_def)
qed

lemma heartbeat_last:
  assumes repo: "svc_repo svc = repo" and st: "I (cp_db st)" and n: "nodes (cp_db st) (hb_node_id hb) = Some n"
  shows "\<exists>n'. nodes (cp_db (snd (run_task (heartbeat_task svc hb) (snd (run_task (drain_task svc (hb_node_id hb)) st)))))
    (hb_node_id hb) = Some n' \<and> nd_state n' = Draining"
proof -
  obtain s1 t where 1: "snd (run_task (drain_task svc (hb_node_id hb)) st) = s1" "I (cp_db s1)"
      "nodes (cp_db s1) (hb_node_id hb) = Some (state_node Draining t n)"
    using drain_leaves [OF assms] by auto
  from heartbeat_leaves [OF repo 1(2,3)] 1(1) show ?thesis
    by (auto simp: spec_heartbeat_def reclassify_after_heartbeat_def state_node_def beat_node_def)
qed

end

section \<open>Properties\<close>

text \<open>
  C13. Interleaving is not safe for a drain. A heartbeat that would change the node's state, and that has read
  the node before a drain request is served, writes the state it computed afterwards: both
  requests succeed, the drain even answers with a draining node, but the node ends up Healthy or
  Degraded, selectable again. Served one after the other, in either order, they leave the node Draining.
\<close>

theorem concurrent_heartbeat_undoes_drain:
  fixes e p
  defines "svc \<equiv> from_repo_sql e p"
  assumes "db_inv e (cp_db st)" "\<forall>k. \<not> ce_fault e k" "db_map e (cp_db st) (hb_node_id hb) = Some n"
    and "reclassify_after_heartbeat (nd_state n) (hb_active_connections hb) (nd_max_connections n) p \<noteq> nd_state n"
  shows "(\<exists>d st' n'. schedule [0, 1, 1, 0, 0, 0] (st, [heartbeat_task svc hb, drain_task svc (hb_node_id hb)]) =
        (st', [Finished Beaten, Finished (Drained (Some d))]) \<and> nd_state d = Draining \<and>
        db_map e (cp_db st') (hb_node_id hb) = Some n' \<and> is_selectable n') \<and>
    (\<exists>n'. db_map e (cp_db (snd (run_task (drain_task svc (hb_node_id hb)) (snd (run_task (heartbeat_task svc hb) st)))))
        (hb_node_id hb) = Some n' \<and> nd_state n' = Draining) \<and>
    (\<exists>n'. db_map e (cp_db (snd (run_task (heartbeat_task svc hb) (snd (run_task (drain_task svc (hb_node_id hb)) st)))))
        (hb_node_id hb) = Some n' \<and> nd_state n' = Draining)"
proof -
  have q: "quiet_inv e (cp_db st)" and r: "svc_repo svc = SqliteNodeRepository e" and pol: "svc_policy svc = p"
    using assms(1-3) by (simp_all add: quiet_inv_def)
  have sel: "is_selectable n'" if "nd_state n' =
      reclassify_after_heartbeat (nd_state n) (hb_active_connections hb) (nd_max_connections n) p" for n'
    using that assms(5) by (auto simp: is_selectable_def reclassify_after_heartbeat_def Let_def split: if_splits)
  obtain d st' n' where race: "schedule [0, 1, 1, 0, 0, 0] (st, [heartbeat_task svc hb, drain_task svc (hb_node_id hb)]) =
        (st', [Finished Beaten, Finished (Drained (Some d))])" "nd_state d = Draining"
      "db_map e (cp_db st') (hb_node_id hb) = Some n'"
      "nd_state n' = reclassify_after_heartbeat (nd_state n) (hb_active_connections hb) (nd_max_connections n) p"
    using quiet.heartbeat_after_drain [OF r q assms(4) refl, unfolded pol, OF assms(5)] by blast
  show ?thesis
    by (intro conjI quiet.drain_last [OF r q assms(4)] quiet.heartbeat_last [OF r q assms(4)])
      (rule exI [of _ d], rule exI [of _ st'], rule exI [of _ n'], intro conjI race(1-3) sel [OF race(4)])
qed

theorem concurrent_heartbeat_undoes_drain_witness:
  "\<exists>d st' n'. schedule [0, 1, 1, 0, 0, 0] (service_start sample_db,
       [heartbeat_task (from_repo_sql sample_env HealthPolicy_default) (sample_beat 1),
        drain_task (from_repo_sql sample_env HealthPolicy_default) ''n1'']) =
     (st', [Finished Beaten, Finished (Drained (Some d))]) \<and> nd_state d = Draining \<and>
     db_map sample_env (cp_db st') ''n1'' = Some n' \<and> is_selectable n'"
proof -
  have "hb_node_id (sample_beat 1) = ''n1''" by (simp add: sample_beat_def)
  moreover have "reclassify_after_heartbeat Starting a m p \<noteq> Starting" for a m p
    by (auto simp: reclassify_after_heartbeat_def Let_def)
  ultimately show ?thesis
    using concurrent_heartbeat_undoes_drain [of sample_env "service_start sample_db" "sample_beat 1" _ HealthPolicy_default]
      sample_db_ok sample_quiet(2) by (simp add: new_node_def)
qed

end
