(* ===== verification/Socks_Wire.thy ===== *)
theory Socks_Wire
  imports Proxy_Prelude
begin

text \<open>
  The base of the protocol crate: the constants of \<^verbatim>\<open>constants.rs\<close>, the error type of
  \<^verbatim>\<open>error.rs\<close> and the bounds-checked \<^verbatim>\<open>Reader\<close> of \<^verbatim>\<open>reader.rs\<close>, with the contract
  every frame of the protocol has to meet (the locales \<open>frame_codec\<close> and
  \<open>sound_codec\<close>).
\<close>

section \<open>Constants\<close>

definition VERSION :: u8 where [simp]: "VERSION = 0x05"
definition AUTH_VERSION :: u8 where [simp]: "AUTH_VERSION = 0x01"
definition GREETING_HEADER_LEN :: nat where [simp]: "GREETING_HEADER_LEN = 2"
definition REQUEST_HEADER_LEN :: nat where [simp]: "REQUEST_HEADER_LEN = 4"
definition REPLY_HEADER_LEN :: nat where [simp]: "REPLY_HEADER_LEN = 4"

definition method_NO_AUTH :: u8 where [simp]: "method_NO_AUTH = 0x00"
definition method_USER_PASS :: u8 where [simp]: "method_USER_PASS = 0x02"
definition method_NO_ACCEPTABLE :: u8 where [simp]: "method_NO_ACCEPTABLE = 0xff"

definition command_CONNECT :: u8 where [simp]: "command_CONNECT = 0x01"
definition command_BIND :: u8 where [simp]: "command_BIND = 0x02"
definition command_UDP_ASSOCIATE :: u8 where [simp]: "command_UDP_ASSOCIATE = 0x03"

definition atyp_IPV4 :: u8 where [simp]: "atyp_IPV4 = 0x01"
definition atyp_DOMAIN :: u8 where [simp]: "atyp_DOMAIN = 0x03"
definition atyp_IPV6 :: u8 where [simp]: "atyp_IPV6 = 0x04"

definition reply_SUCCESS :: u8 where [simp]: "reply_SUCCESS = 0x00"
definition reply_GENERAL_FAILURE :: u8 where [simp]: "reply_GENERAL_FAILURE = 0x01"
definition reply_NOT_ALLOWED :: u8 where [simp]: "reply_NOT_ALLOWED = 0x02"
definition reply_NETWORK_UNREACHABLE :: u8 where [simp]: "reply_NETWORK_UNREACHABLE = 0x03"
definition reply_HOST_UNREACHABLE :: u8 where [simp]: "reply_HOST_UNREACHABLE = 0x04"
definition reply_CONNECTION_REFUSED :: u8 where [simp]: "reply_CONNECTION_REFUSED = 0x05"
definition reply_TTL_EXPIRED :: u8 where [simp]: "reply_TTL_EXPIRED = 0x06"
definition reply_COMMAND_NOT_SUPPORTED :: u8 where [simp]: "reply_COMMAND_NOT_SUPPORTED = 0x07"
definition reply_ADDRESS_TYPE_NOT_SUPPORTED :: u8 where [simp]: "reply_ADDRESS_TYPE_NOT_SUPPORTED = 0x08"

section \<open>Errors\<close>

datatype ProtocolError =
    BadVersion u8
  | Unsupported u8
  | Truncated
  | InvalidCredentialLength
  | NoAcceptableMethod

fun is_truncated :: "ProtocolError \<Rightarrow> bool" where
  "is_truncated Truncated = True"
| "is_truncated _ = False"

section \<open>The reader\<close>

record Reader =
  rd_buf :: bytes
  rd_pos :: nat

definition Reader_new :: "bytes \<Rightarrow> Reader" where
  "Reader_new b = \<lparr>rd_buf = b, rd_pos = 0\<rparr>"

definition position :: "Reader \<Rightarrow> nat" where
  "position r = rd_pos r"

definition read_u8 :: "Reader \<Rightarrow> ProtocolError + (u8 \<times> Reader)" where
  "read_u8 r =
     and_then (ok_or Truncated (slice_get (rd_buf r) (rd_pos r)))
       (\<lambda>byte. Inr (byte, r\<lparr>rd_pos := rd_pos r + 1\<rparr>))"

definition read_u16 :: "Reader \<Rightarrow> ProtocolError + (u16 \<times> Reader)" where
  "read_u16 r =
     and_then (read_u8 r) (\<lambda>(hi, r).
     and_then (read_u8 r) (\<lambda>(lo, r).
       Inr (or (push_bit 8 (ucast hi)) (ucast lo), r)))"

definition read_bytes :: "nat \<Rightarrow> Reader \<Rightarrow> ProtocolError + (bytes \<times> Reader)" where
  "read_bytes n r =
     and_then (ok_or Truncated (usize_checked_add (rd_pos r) n)) (\<lambda>fin.
     and_then (ok_or Truncated (slice_range (rd_buf r) (rd_pos r) fin)) (\<lambda>slice.
       Inr (slice, r\<lparr>rd_pos := fin\<rparr>)))"

subsection \<open>The unread part of the buffer\<close>

definition unread :: "Reader \<Rightarrow> bytes" where
  "unread r = drop (rd_pos r) (rd_buf r)"

definition reader_ok :: "Reader \<Rightarrow> bool" where
  "reader_ok r \<longleftrightarrow> rd_pos r \<le> length (rd_buf r)"

definition advance :: "nat \<Rightarrow> Reader \<Rightarrow> Reader" where
  "advance n r = r\<lparr>rd_pos := rd_pos r + n\<rparr>"

lemma reader_new_simps [simp]:
  "unread (Reader_new b) = b" "reader_ok (Reader_new b)" "position (Reader_new b) = 0"
  "rd_pos (Reader_new b) = 0" "rd_buf (Reader_new b) = b"
  by (simp_all add: unread_def reader_ok_def Reader_new_def position_def)

lemma advance_simps [simp]:
  "unread (advance n r) = drop n (unread r)"
  "position (advance n r) = position r + n"
  "rd_pos (advance n r) = rd_pos r + n"
  "rd_buf (advance n r) = rd_buf r"
  by (simp_all add: unread_def advance_def position_def add.commute)

lemma advance_advance [simp]: "advance m (advance n r) = advance (n + m) r"
  by (simp add: advance_def)

lemma reader_ok_advance [simp]:
  "reader_ok r \<Longrightarrow> reader_ok (advance n r) \<longleftrightarrow> n \<le> length (unread r)"
  by (auto simp: reader_ok_def unread_def)

lemma read_u8_unread [wire_simps]:
  "read_u8 r = (case unread r of [] \<Rightarrow> Inl Truncated | b # _ \<Rightarrow> Inr (b, advance 1 r))"
  by (simp add: read_u8_def slice_get_drop unread_def advance_def split: list.split)

lemma read_bytes_unread [wire_simps]:
  assumes "reader_ok r" and "rd_pos r + n < 2 ^ 64"
  shows "read_bytes n r =
    (if n \<le> length (unread r) then Inr (take n (unread r), advance n r) else Inl Truncated)"
  using assms
  by (auto simp: read_bytes_def usize_checked_add_def slice_range_drop unread_def advance_def
      reader_ok_def)

definition join_u16 :: "u8 \<Rightarrow> u8 \<Rightarrow> u16" where
  "join_u16 hi lo = or (push_bit 8 (ucast hi)) (ucast lo)"

lemma read_u16_unread [wire_simps]:
  "read_u16 r = (case unread r of hi # lo # _ \<Rightarrow> Inr (join_u16 hi lo, advance 2 r)
     | _ \<Rightarrow> Inl Truncated)"
  by (auto simp: read_u16_def read_u8_unread join_u16_def numeral_2_eq_2 split: list.split)

lemma read_u16_Inr:
  assumes "read_u16 r = Inr (w, r')"
  shows "\<exists>hi lo tail. unread r = hi # lo # tail \<and> w = join_u16 hi lo \<and> r' = advance 2 r"
  using assms by (auto simp: read_u16_unread split: list.splits)

lemma join_split_u16 [simp]:
  "join_u16 (ucast (drop_bit 8 w)) (ucast (and w 0xff)) = w"
proof (rule bit_word_eqI)
  fix n
  have mask: "(255 :: u16) = mask 8" by (simp add: mask_eq_exp_minus_1)
  assume "n < LENGTH(16)"
  then show "bit (join_u16 (ucast (drop_bit 8 w)) (ucast (and w 0xff))) n = bit w n"
    unfolding join_u16_def mask
    by (auto simp: bit_or_iff bit_push_bit_iff bit_unsigned_iff bit_drop_bit_eq bit_and_iff bit_mask_iff)
qed

lemma split_join_u16 [simp]:
  "ucast (drop_bit 8 (join_u16 hi lo)) = hi"
  "ucast (and (join_u16 hi lo) 0xff) = lo"
proof -
  have mask: "(255 :: u16) = mask 8" by (simp add: mask_eq_exp_minus_1)
  show "ucast (drop_bit 8 (join_u16 hi lo)) = hi"
    by (rule bit_word_eqI) (auto simp: join_u16_def bit_or_iff bit_push_bit_iff bit_unsigned_iff
        bit_drop_bit_eq dest: bit_imp_le_length)
  show "ucast (and (join_u16 hi lo) 0xff) = lo"
    unfolding mask
    by (rule bit_word_eqI) (auto simp: join_u16_def bit_or_iff bit_push_bit_iff bit_unsigned_iff
        bit_and_iff bit_mask_iff)
qed

text \<open>The reader never moves past the end of its buffer and never changes it.\<close>

lemma read_u8_ok: "reader_ok r \<Longrightarrow> read_u8 r = Inr (b, r') \<Longrightarrow> reader_ok r' \<and> rd_buf r' = rd_buf r"
  by (auto simp: read_u8_unread split: list.splits)

lemma read_bytes_ok:
  "reader_ok r \<Longrightarrow> read_bytes n r = Inr (bs, r') \<Longrightarrow> reader_ok r' \<and> rd_buf r' = rd_buf r \<and> length bs = n"
  by (auto simp: read_bytes_def usize_checked_add_def slice_range_def reader_ok_def ok_or_def
      split: if_splits)

section \<open>The contract of a frame\<close>

text \<open>
  A frame is decoded from the front of a byte stream, whatever follows it, and every
  proper prefix of it is reported as truncated, so a transport that reads byte by byte
  finds the frame's end exactly.
\<close>

locale frame_codec =
  fixes wf :: "'a \<Rightarrow> bool"
    and encode :: "'a \<Rightarrow> bytes"
    and decode :: "bytes \<Rightarrow> ProtocolError + 'a"
  assumes decode_encode: "wf x \<Longrightarrow> decode (encode x @ tail) = Inr x"
    and decode_prefix: "wf x \<Longrightarrow> k < length (encode x) \<Longrightarrow> decode (take k (encode x)) = Inl Truncated"
begin

lemma decode_exact: "wf x \<Longrightarrow> decode (encode x) = Inr x"
  using decode_encode [of x "[]"] by simp

lemma encode_inject: "wf x \<Longrightarrow> wf y \<Longrightarrow> encode x = encode y \<longleftrightarrow> x = y"
  by (metis decode_exact sum.inject(2))

lemma encode_unique:
  assumes "wf x" and "wf y" and "encode x @ s = encode y @ t"
  shows "x = y \<and> s = t"
proof -
  have "Inr x = decode (encode y @ t)" using assms(1,3) decode_encode [of x s] by simp
  then have "x = y" using assms(2) decode_encode [of y t] by simp
  with assms(3) show ?thesis by simp
qed

lemma decode_stream:
  assumes "wf x"
  shows "decode (take k (encode x @ tail)) = (if k < length (encode x) then Inl Truncated else Inr x)"
proof (cases "k < length (encode x)")
  case True
  then show ?thesis using decode_prefix [OF assms True] by simp
next
  case False
  then have "take k (encode x @ tail) = encode x @ take (k - length (encode x)) tail" by simp
  then show ?thesis using False assms decode_encode by simp
qed

end

text \<open>
  A sound codec accepts nothing but frames: what it decodes is the encoding of a
  well-formed value, up to the bytes (the reserved byte of a header) that
  \<open>canon\<close> erases.
\<close>

locale sound_codec = frame_codec +
  fixes canon :: "bytes \<Rightarrow> bytes"
  assumes decode_sound: "decode bs = Inr x \<Longrightarrow> wf x \<and> (\<exists>tail. canon bs = encode x @ tail)"
    and decode_canon: "wf x \<Longrightarrow> canon bs = encode x @ tail \<Longrightarrow> decode bs = Inr x"
begin

lemma decode_iff: "decode bs = Inr x \<longleftrightarrow> wf x \<and> (\<exists>tail. canon bs = encode x @ tail)"
  using decode_sound decode_canon by blast

lemma decode_determines:
  assumes "decode bs = Inr x" and "decode cs = Inr x"
  shows "take (length (encode x)) (canon bs) = take (length (encode x)) (canon cs)"
  using decode_sound [OF assms(1)] decode_sound [OF assms(2)] by auto

end

end
