(* ===== verification/Socks_Address.thy ===== *)
theory Socks_Address
  imports Socks_Wire
begin

text \<open>
  Destination addresses, from \<^verbatim>\<open>host.rs\<close>: the ATYP byte, the wire form of the
  address and port, and \<^verbatim>\<open>Display\<close>. \<^verbatim>\<open>write\<close> panics on a short buffer
  (\<^const>\<open>None\<close>); a 16-byte IPv6 address is a byte list whose length \<open>host_ok\<close>
  records.
\<close>

datatype IpAddr = V4 u8 u8 u8 u8 | V6 bytes

datatype Host = Ip IpAddr | Domain string

record SocksAddr =
  sa_host :: Host
  sa_port :: u16

fun octets :: "IpAddr \<Rightarrow> bytes" where
  "octets (V4 a b c d) = [a, b, c, d]"
| "octets (V6 o16) = o16"

fun host_atyp :: "Host \<Rightarrow> u8" where
  "host_atyp (Ip (V4 _ _ _ _)) = atyp_IPV4"
| "host_atyp (Ip (V6 _)) = atyp_IPV6"
| "host_atyp (Domain _) = atyp_DOMAIN"

definition SocksAddr_atyp :: "SocksAddr \<Rightarrow> u8" where
  "SocksAddr_atyp a = host_atyp (sa_host a)"

definition SocksAddr_wire_len :: "SocksAddr \<Rightarrow> nat" where
  "SocksAddr_wire_len a = (case sa_host a of
     Ip (V4 _ _ _ _) \<Rightarrow> 4 + 2
   | Ip (V6 _) \<Rightarrow> 16 + 2
   | Domain name \<Rightarrow> 1 + length name + 2)"

text \<open>\<^verbatim>\<open>out[i..i + n].copy_from_slice(bs)\<close> with \<open>n = length bs\<close>.\<close>

definition copy_at :: "nat \<Rightarrow> bytes \<Rightarrow> bytes \<Rightarrow> bytes" where
  "copy_at i bs out = take i out @ bs @ drop (i + length bs) out"

definition SocksAddr_write :: "SocksAddr \<Rightarrow> bytes \<Rightarrow> (nat \<times> bytes) option" where
  "SocksAddr_write a out =
     (let n = SocksAddr_wire_len a in
      if length out < n then None
      else
        let (p, out) = (case sa_host a of
              Ip (V4 o1 o2 o3 o4) \<Rightarrow> (4, copy_at 0 [o1, o2, o3, o4] out)
            | Ip (V6 o16) \<Rightarrow> (16, copy_at 0 o16 out)
            | Domain name \<Rightarrow>
                (1 + length name, copy_at 1 (as_bytes name) (out[0 := len_as_u8 (length name)])));
            out = out[p := ucast (drop_bit 8 (sa_port a))];
            out = out[p + 1 := ucast (and (sa_port a) 0xff)]
        in Some (n, out))"

definition SocksAddr_to_vec :: "SocksAddr \<Rightarrow> bytes" where
  "SocksAddr_to_vec a =
     (case SocksAddr_write a (replicate (SocksAddr_wire_len a) 0) of
        Some (_, b) \<Rightarrow> b
      | None \<Rightarrow> [])"

section \<open>Display\<close>

definition digit_char :: "nat \<Rightarrow> char" where
  "digit_char d = char_of (if d < 10 then 48 + d else 87 + d)"

fun to_dec :: "nat \<Rightarrow> string" where
  "to_dec n = (if n < 10 then [digit_char n] else to_dec (n div 10) @ [digit_char (n mod 10)])"

fun to_hex :: "nat \<Rightarrow> string" where
  "to_hex n = (if n < 16 then [digit_char n] else to_hex (n div 16) @ [digit_char (n mod 16)])"

declare to_dec.simps [simp del] to_hex.simps [simp del]

fun intersperse_concat :: "string \<Rightarrow> string list \<Rightarrow> string" where
  "intersperse_concat sep [] = []"
| "intersperse_concat sep [x] = x"
| "intersperse_concat sep (x # y # xs) = x @ sep @ intersperse_concat sep (y # xs)"

definition ipv4_display :: "u8 \<Rightarrow> u8 \<Rightarrow> u8 \<Rightarrow> u8 \<Rightarrow> string" where
  "ipv4_display a b c d = intersperse_concat ''.'' (map (to_dec \<circ> unat) [a, b, c, d])"

fun ipv6_segments :: "bytes \<Rightarrow> nat list" where
  "ipv6_segments (hi # lo # bs) = (256 * unat hi + unat lo) # ipv6_segments bs"
| "ipv6_segments _ = []"

text \<open>
  The standard library's scan for the longest run of zero segments: the first one of the
  greatest length, as a start and a length.
\<close>

fun zero_run :: "nat list \<Rightarrow> nat \<Rightarrow> nat \<times> nat \<Rightarrow> nat \<times> nat \<Rightarrow> nat \<times> nat" where
  "zero_run [] i cur longest = longest"
| "zero_run (s # ss) i cur longest =
     (if s = 0 then
        let cur = (if snd cur = 0 then i else fst cur, snd cur + 1);
            longest = (if snd cur > snd longest then cur else longest)
        in zero_run ss (i + 1) cur longest
      else zero_run ss (i + 1) (0, 0) longest)"

definition segments_display :: "nat list \<Rightarrow> string" where
  "segments_display ss = intersperse_concat '':'' (map to_hex ss)"

definition ipv6_display :: "bytes \<Rightarrow> string" where
  "ipv6_display o16 =
     (if take 12 o16 = replicate 10 0 @ [0xff, 0xff]
      then ''::ffff:'' @ ipv4_display (o16 ! 12) (o16 ! 13) (o16 ! 14) (o16 ! 15)
      else let ss = ipv6_segments o16; (start, len) = zero_run ss 0 (0, 0) (0, 0) in
        if len > 1
        then segments_display (take start ss) @ ''::'' @ segments_display (drop (start + len) ss)
        else segments_display ss)"

fun Host_display :: "Host \<Rightarrow> string" where
  "Host_display (Ip (V4 a b c d)) = ipv4_display a b c d"
| "Host_display (Ip (V6 o16)) = ipv6_display o16"
| "Host_display (Domain d) = d"

definition SocksAddr_display :: "SocksAddr \<Rightarrow> string" where
  "SocksAddr_display a = Host_display (sa_host a) @ '':'' @ to_dec (unat (sa_port a))"

section \<open>The wire form\<close>

fun host_ok :: "Host \<Rightarrow> bool" where
  "host_ok (Ip (V4 _ _ _ _)) = True"
| "host_ok (Ip (V6 o16)) = (length o16 = 16)"
| "host_ok (Domain name) = (is_rust_string name \<and> length name \<le> 255)"

fun host_bytes :: "Host \<Rightarrow> bytes" where
  "host_bytes (Ip ip) = octets ip"
| "host_bytes (Domain name) = len_as_u8 (length name) # as_bytes name"

definition port_bytes :: "u16 \<Rightarrow> bytes" where
  "port_bytes p = [ucast (drop_bit 8 p), ucast (and p 0xff)]"

abbreviation ip_len_ok :: "SocksAddr \<Rightarrow> bool" where
  "ip_len_ok a \<equiv> (\<forall>o16. sa_host a = Ip (V6 o16) \<longrightarrow> length o16 = 16)"

lemma length_port_bytes [simp]: "length (port_bytes p) = 2"
  by (simp add: port_bytes_def)

lemma port_bytes_join [simp]: "port_bytes (join_u16 hi lo) = [hi, lo]"
  by (simp add: port_bytes_def)

lemma update_port:
  assumes "length hs = p" and "p + 2 \<le> length out"
  shows "(hs @ drop p out)[p := x, p + 1 := y] = hs @ [x, y] @ drop (p + 2) out"
proof -
  have "drop p out = out ! p # out ! Suc p # drop (p + 2) out"
    using assms(2) by (simp add: Cons_nth_drop_Suc)
  then show ?thesis using assms(1) by (simp add: list_update_append)
qed

lemma SocksAddr_write_eq:
  assumes "ip_len_ok a"
  shows "SocksAddr_write a out =
    (if length out < SocksAddr_wire_len a then None
     else Some (SocksAddr_wire_len a,
       host_bytes (sa_host a) @ port_bytes (sa_port a) @ drop (SocksAddr_wire_len a) out))"
proof (cases "sa_host a")
  case (Ip ip)
  show ?thesis
  proof (cases ip)
    case (V4 o1 o2 o3 o4)
    then show ?thesis
      using Ip update_port [of "[o1, o2, o3, o4]" 4 out]
      by (simp add: SocksAddr_write_def SocksAddr_wire_len_def copy_at_def port_bytes_def
          eval_nat_numeral)
  next
    case (V6 o16)
    then show ?thesis
      using Ip assms update_port [of o16 16 out]
      by (simp add: SocksAddr_write_def SocksAddr_wire_len_def copy_at_def port_bytes_def Let_def)
  qed
next
  case (Domain name)
  let ?hs = "len_as_u8 (length name) # as_bytes name"
  have "copy_at 1 (as_bytes name) (out[0 := len_as_u8 (length name)]) = ?hs @ drop (1 + length name) out"
    if "SocksAddr_wire_len a \<le> length out"
    using that Domain by (cases out) (auto simp: copy_at_def SocksAddr_wire_len_def)
  then show ?thesis
    using Domain update_port [of ?hs "1 + length name" out]
    by (auto simp: SocksAddr_write_def SocksAddr_wire_len_def port_bytes_def Let_def)
qed

lemma SocksAddr_to_vec_eq:
  "ip_len_ok a \<Longrightarrow> SocksAddr_to_vec a = host_bytes (sa_host a) @ port_bytes (sa_port a)"
  by (simp add: SocksAddr_to_vec_def SocksAddr_write_eq)

lemma length_host_bytes:
  "ip_len_ok a \<Longrightarrow> length (host_bytes (sa_host a)) + 2 = SocksAddr_wire_len a"
  by (auto simp: SocksAddr_wire_len_def split: Host.split IpAddr.split)

lemma host_ok_ip_len: "host_ok (sa_host a) \<Longrightarrow> ip_len_ok a"
  by auto

end
