(* ===== verification/CP_Api.thy ===== *)
theory CP_Api
  imports CP_Lifecycle Socks_Address
begin

text \<open>
  The HTTP API of the control plane, from \<^verbatim>\<open>api.rs\<close>, and the sweep task and state
  wiring of \<^verbatim>\<open>server.rs\<close>. A handler maps the service state and its extracted arguments
  to an API result. What other crates decide is an environment: how a header value becomes
  a string, how a body is decoded as JSON (or with which status it is rejected), the text
  of a database error and the rendering of the metrics.
\<close>

section \<open>State, errors and responses\<close>

datatype Auth = AuthNone | AuthBearer string

record AppState =
  app_service :: "Db ControlPlaneService"
  app_auth :: Auth

record ApiError =
  ae_status :: nat
  ae_message :: string

definition bad_request :: "string \<Rightarrow> ApiError" where
  "bad_request msg = \<lparr>ae_status = 400, ae_message = msg\<rparr>"

definition not_found :: "string \<Rightarrow> ApiError" where
  "not_found msg = \<lparr>ae_status = 404, ae_message = msg\<rparr>"

definition internal :: "string \<Rightarrow> ApiError" where
  "internal msg = \<lparr>ae_status = 500, ae_message = msg\<rparr>"

record NodeResponse =
  nr_id :: string
  nr_address :: string
  nr_state :: NodeState
  nr_last_heartbeat :: "DateTime option"
  nr_max_connections :: u32
  nr_active_connections :: u32
  nr_bandwidth_limit :: u64
  nr_available_bandwidth :: u64
  nr_bytes_up :: u64
  nr_bytes_down :: u64
  nr_latency_ms :: u32

definition NodeResponse_from_node :: "Node \<Rightarrow> u64 \<Rightarrow> NodeResponse" where
  "NodeResponse_from_node n available_bandwidth =
     \<lparr>nr_id = nd_id n, nr_address = nd_address n, nr_state = nd_state n,
      nr_last_heartbeat = nd_last_heartbeat n, nr_max_connections = nd_max_connections n,
      nr_active_connections = nd_active_connections n, nr_bandwidth_limit = nd_bandwidth_limit n,
      nr_available_bandwidth = available_bandwidth, nr_bytes_up = nd_bytes_up n,
      nr_bytes_down = nd_bytes_down n, nr_latency_ms = nd_latency_ms n\<rparr>"

datatype ResponseBody =
  NodeBody NodeResponse
| NodeListBody "NodeResponse list"
| HealthBody string
| ErrorBody string
| TextBody string
| EmptyBody

record HttpResponse =
  rs_status :: nat
  rs_body :: ResponseBody

record ApiEnv =
  env_to_str :: "bytes \<Rightarrow> string option"
  env_json_register :: "bytes \<Rightarrow> HttpResponse + RegisterRequest"
  env_json_heartbeat :: "bytes \<Rightarrow> HttpResponse + Heartbeat"
  env_sql_message :: "RepoError \<Rightarrow> string"
  env_render :: "gauges \<Rightarrow> string"

definition int_display :: "int \<Rightarrow> string" where
  "int_display i = (if i < 0 then ''-'' @ to_dec (nat (- i)) else to_dec (nat i))"

text \<open>\<^verbatim>\<open>e.to_string()\<close> for the errors the repository and the service make themselves.\<close>

fun error_string :: "ApiEnv \<Rightarrow> RepoError \<Rightarrow> string" where
  "error_string ae (UnknownNodeState s) = ''unknown node state stored: '' @ s"
| "error_string ae (InvalidEpoch unix) = ''invalid epoch timestamp '' @ int_display unix"
| "error_string ae NodeDisappeared = ''node disappeared after register''"
| "error_string ae e = env_sql_message ae e"

section \<open>Validation and authorization\<close>

text \<open>
  \<^verbatim>\<open>s.trim().is_empty()\<close>: every character of \<open>s\<close> has the Unicode property
  White\_Space; on UTF-8 bytes these are the characters below.
\<close>

fun trim_start :: "nat list \<Rightarrow> nat list" where
  "trim_start (a # r1) =
     (if 9 \<le> a \<and> a \<le> 13 \<or> a = 32 then trim_start r1
      else case r1 of
        b # r2 \<Rightarrow>
          if a = 0xC2 \<and> (b = 0x85 \<or> b = 0xA0) then trim_start r2
          else (case r2 of
            c # r3 \<Rightarrow>
              if a = 0xE1 \<and> b = 0x9A \<and> c = 0x80 \<or>
                 a = 0xE2 \<and> b = 0x80 \<and> (0x80 \<le> c \<and> c \<le> 0x8A \<or> c = 0xA8 \<or> c = 0xA9 \<or> c = 0xAF) \<or>
                 a = 0xE2 \<and> b = 0x81 \<and> c = 0x9F \<or>
                 a = 0xE3 \<and> b = 0x80 \<and> c = 0x80
              then trim_start r3 else a # r1
          | [] \<Rightarrow> a # r1)
      | [] \<Rightarrow> a # r1)"
| "trim_start [] = []"

definition blank :: "string \<Rightarrow> bool" where
  "blank s \<longleftrightarrow> trim_start (map of_char s) = []"

definition validate_register :: "RegisterRequest \<Rightarrow> ApiError + unit" where
  "validate_register req =
     (if blank (rr_node_id req) then Inl (bad_request ''node_id must not be empty'')
      else if blank (rr_address req) then Inl (bad_request ''address must not be empty'')
      else if rr_max_connections req = 0 then Inl (bad_request ''max_connections must be > 0'')
      else if rr_bandwidth_limit req = 0 then Inl (bad_request ''bandwidth_limit must be > 0'')
      else Inr ())"

definition validate_heartbeat :: "Heartbeat \<Rightarrow> ApiError + unit" where
  "validate_heartbeat hb =
     (if blank (hb_node_id hb) then Inl (bad_request ''node_id must not be empty'') else Inr ())"

definition strip_prefix :: "string \<Rightarrow> string \<Rightarrow> string option" where
  "strip_prefix pre s = (if take (length pre) s = pre then Some (drop (length pre) s) else None)"

text \<open>\<open>header\<close> is the first \<^verbatim>\<open>authorization\<close> header of the request, if any.\<close>

definition authorize :: "ApiEnv \<Rightarrow> bytes option \<Rightarrow> Auth \<Rightarrow> ApiError + unit" where
  "authorize ae header auth =
     (case auth of
        AuthNone \<Rightarrow> Inr ()
      | AuthBearer expected \<Rightarrow>
          and_then
            (ok_or \<lparr>ae_status = 401, ae_message = ''missing bearer token''\<rparr>
               (Option.bind (Option.bind header (env_to_str ae)) (strip_prefix ''Bearer '')))
            (\<lambda>provided.
               if provided = expected then Inr ()
               else Inl \<lparr>ae_status = 401, ae_message = ''invalid bearer token''\<rparr>))"

section \<open>Handlers\<close>

type_synonym 'a handler = "(Db CpState, ApiError, 'a) io"

abbreviation internal_of :: "ApiEnv \<Rightarrow> RepoError \<Rightarrow> ApiError" where
  "internal_of ae e \<equiv> internal (error_string ae e)"

abbreviation missing_node :: "string \<Rightarrow> ApiError" where
  "missing_node i \<equiv> not_found (''node '' @ [CHR 0x27] @ i @ [CHR 0x27] @ '' not found'')"

definition health :: "AppState \<Rightarrow> ResponseBody handler" where
  "health app =
     io_bind (io_map_err (\<lambda>_. internal ''storage unavailable'') (service_list (app_service app))) (\<lambda>_.
       io_return (HealthBody ''ok''))"

definition list_nodes :: "ApiEnv \<Rightarrow> AppState \<Rightarrow> ResponseBody handler" where
  "list_nodes ae app =
     io_bind (io_map_err (internal_of ae) (service_list (app_service app))) (\<lambda>nodes.
       io_return (NodeListBody (map (\<lambda>n. NodeResponse_from_node n (nd_bandwidth_limit n)) nodes)))"

definition get_node :: "ApiEnv \<Rightarrow> AppState \<Rightarrow> string \<Rightarrow> ResponseBody handler" where
  "get_node ae app i =
     io_bind (io_map_err (internal_of ae) (service_get (app_service app) i)) (\<lambda>found.
     io_bind (io_lift (ok_or (missing_node i) found)) (\<lambda>node.
       io_return (NodeBody (NodeResponse_from_node node (nd_bandwidth_limit node)))))"

definition select_node :: "ApiEnv \<Rightarrow> AppState \<Rightarrow> ResponseBody handler" where
  "select_node ae app =
     io_bind (io_map_err (internal_of ae) (service_select (app_service app))) (\<lambda>found.
     io_bind (io_lift (ok_or \<lparr>ae_status = 503, ae_message = ''no healthy node available''\<rparr> found)) (\<lambda>node.
       io_return (NodeBody (NodeResponse_from_node node (nd_bandwidth_limit node)))))"

definition register_node :: "ApiEnv \<Rightarrow> AppState \<Rightarrow> bytes option \<Rightarrow> RegisterRequest \<Rightarrow> ResponseBody handler" where
  "register_node ae app header req =
     io_bind (io_lift (authorize ae header (app_auth app))) (\<lambda>_.
     io_bind (io_lift (validate_register req)) (\<lambda>_.
     io_bind (io_map_err (internal_of ae) (service_register (app_service app) req)) (\<lambda>node.
       io_return (NodeBody (NodeResponse_from_node node (nd_bandwidth_limit node))))))"

definition heartbeat_node :: "ApiEnv \<Rightarrow> AppState \<Rightarrow> bytes option \<Rightarrow> string \<Rightarrow> Heartbeat \<Rightarrow> ResponseBody handler" where
  "heartbeat_node ae app header i hb =
     io_bind (io_lift (authorize ae header (app_auth app))) (\<lambda>_.
       let hb = hb\<lparr>hb_node_id := i\<rparr> in
       io_bind (io_lift (validate_heartbeat hb)) (\<lambda>_.
       io_bind (io_map_err (internal_of ae) (service_heartbeat (app_service app) hb)) (\<lambda>_.
         io_return (HealthBody ''ok''))))"

definition drain_node :: "ApiEnv \<Rightarrow> AppState \<Rightarrow> bytes option \<Rightarrow> string \<Rightarrow> ResponseBody handler" where
  "drain_node ae app header i =
     io_bind (io_lift (authorize ae header (app_auth app))) (\<lambda>_.
     io_bind (io_map_err (internal_of ae) (service_drain (app_service app) i)) (\<lambda>found.
     io_bind (io_lift (ok_or (missing_node i) found)) (\<lambda>node.
       io_return (NodeBody (NodeResponse_from_node node (nd_bandwidth_limit node))))))"

definition metrics :: "ApiEnv \<Rightarrow> ResponseBody handler" where
  "metrics ae st = (Inr (TextBody (env_render ae (cp_gauges st))), st)"

section \<open>Routing of requests\<close>

datatype HttpMethod = GET | HEAD | POST | OtherMethod

record HttpRequest =
  hq_method :: HttpMethod
  hq_path :: "string list"
  hq_authorization :: "bytes option"
  hq_body :: bytes

definition into_response :: "ApiError + ResponseBody \<Rightarrow> HttpResponse" where
  "into_response r = (case r of
     Inr body \<Rightarrow> \<lparr>rs_status = 200, rs_body = body\<rparr>
   | Inl e \<Rightarrow> \<lparr>rs_status = ae_status e, rs_body = ErrorBody (ae_message e)\<rparr>)"

definition respond :: "ResponseBody handler \<Rightarrow> Db CpState \<Rightarrow> HttpResponse \<times> Db CpState" where
  "respond h st = (case h st of (r, st') \<Rightarrow> (into_response r, st'))"

text \<open>
  The route table. A path segment matches a literal route before the parameter \<^verbatim>\<open>:id\<close>; a
  path that matches with another method is answered 405, one that matches nothing 404. A
  \<^verbatim>\<open>get\<close> route also serves HEAD, by the same handler and without the body.
  \<^verbatim>\<open>Json\<close> arguments are extracted, and rejected, before the handler runs.
\<close>

definition method_not_allowed :: "Db CpState \<Rightarrow> HttpResponse \<times> Db CpState" where
  "method_not_allowed st = (\<lparr>rs_status = 405, rs_body = EmptyBody\<rparr>, st)"

definition no_route :: "Db CpState \<Rightarrow> HttpResponse \<times> Db CpState" where
  "no_route st = (\<lparr>rs_status = 404, rs_body = EmptyBody\<rparr>, st)"

definition without_body :: "(Db CpState \<Rightarrow> HttpResponse \<times> Db CpState) \<Rightarrow> Db CpState \<Rightarrow> HttpResponse \<times> Db CpState" where
  "without_body h st = (case h st of (resp, st') \<Rightarrow> (resp\<lparr>rs_body := EmptyBody\<rparr>, st'))"

definition on_method :: "HttpMethod \<Rightarrow> HttpRequest \<Rightarrow> (Db CpState \<Rightarrow> HttpResponse \<times> Db CpState) \<Rightarrow>
    Db CpState \<Rightarrow> HttpResponse \<times> Db CpState" where
  "on_method m q h =
     (if hq_method q = m then h
      else if m = GET \<and> hq_method q = HEAD then without_body h
      else method_not_allowed)"

definition with_body :: "HttpResponse + 'a \<Rightarrow> ('a \<Rightarrow> Db CpState \<Rightarrow> HttpResponse \<times> Db CpState) \<Rightarrow>
    Db CpState \<Rightarrow> HttpResponse \<times> Db CpState" where
  "with_body x h st = (case x of Inl rejection \<Rightarrow> (rejection, st) | Inr a \<Rightarrow> h a st)"

definition router :: "ApiEnv \<Rightarrow> AppState \<Rightarrow> HttpRequest \<Rightarrow> Db CpState \<Rightarrow> HttpResponse \<times> Db CpState" where
  "router ae app q =
     (let auth = hq_authorization q in
      if hq_path q = [''health''] then on_method GET q (respond (health app))
      else if hq_path q = [''nodes''] then on_method GET q (respond (list_nodes ae app))
      else if hq_path q = [''nodes'', ''select''] then on_method POST q (respond (select_node ae app))
      else if hq_path q = [''nodes'', ''register''] then
        on_method POST q (with_body (env_json_register ae (hq_body q)) (\<lambda>req. respond (register_node ae app auth req)))
      else if hq_path q = [''metrics''] then on_method GET q (respond (metrics ae))
      else (case hq_path q of
        [nodes, i] \<Rightarrow>
          if nodes = ''nodes'' \<and> i \<noteq> [] then on_method GET q (respond (get_node ae app i)) else no_route
      | [nodes, i, action] \<Rightarrow>
          if nodes = ''nodes'' \<and> i \<noteq> [] \<and> action = ''heartbeat'' then
            on_method POST q (with_body (env_json_heartbeat ae (hq_body q)) (\<lambda>hb. respond (heartbeat_node ae app auth i hb)))
          else if nodes = ''nodes'' \<and> i \<noteq> [] \<and> action = ''drain'' then
            on_method POST q (respond (drain_node ae app auth i))
          else no_route
      | _ \<Rightarrow> no_route))"

section \<open>Wiring\<close>

definition app_state :: "Db ControlPlaneService \<Rightarrow> string option \<Rightarrow> AppState" where
  "app_state service api_token =
     \<lparr>app_service = service,
      app_auth = (case api_token of Some token \<Rightarrow> if token \<noteq> [] then AuthBearer token else AuthNone
                                  | None \<Rightarrow> AuthNone)\<rparr>"

text \<open>
  The sweep task after its skipped first tick: it runs until the shutdown token is
  cancelled; a failed sweep is logged and the loop goes on. The log keeps the outcomes.
\<close>

datatype SweepEvent = SweepTick | SweepCancelled

fun health_sweep :: "Db ControlPlaneService \<Rightarrow> (Db \<Rightarrow> DateTime \<times> Db) \<Rightarrow> SweepEvent list \<Rightarrow> Db CpState \<Rightarrow>
    (RepoError + nat) list \<times> Db CpState" where
  "health_sweep svc clock [] st = ([], st)"
| "health_sweep svc clock (SweepCancelled # _) st = ([], st)"
| "health_sweep svc clock (SweepTick # evs) st =
     (case mark_stale_offline svc clock st of (r, st') \<Rightarrow>
      case health_sweep svc clock evs st' of (rs, st'') \<Rightarrow> (r # rs, st''))"

section \<open>What a request can change\<close>

lemma strip_prefix_Some: "strip_prefix pre s = Some t \<longleftrightarrow> s = pre @ t"
  by (auto simp: strip_prefix_def) (metis append_take_drop_id)

lemma authorize_bearer:
  "authorize ae header (AuthBearer token) = Inr () \<longleftrightarrow>
     (\<exists>v. header = Some v \<and> env_to_str ae v = Some (''Bearer '' @ token))"
  by (auto simp: authorize_def and_then_eq_Inr ok_or_Inr bind_eq_Some_conv strip_prefix_Some
      split: if_splits)

lemma keeps_map_err: "keeps I nodes R m \<Longrightarrow> keeps I nodes R (io_map_err f m)"
  by (rule keepsI) (simp add: io_map_err_def case_prod_beta keepsD)

lemma keeps_weaken: "keeps I nodes (=) m \<Longrightarrow> (\<And>N. R N N) \<Longrightarrow> keeps I nodes R m"
  using keepsD by (intro keepsI) fastforce

lemma keeps_checked:
  assumes "\<And>x. r = Inr x \<Longrightarrow> keeps I nodes R (f x)" "\<And>N. R N N"
  shows "keeps I nodes R (io_bind (io_lift r) f)"
  using assms by (cases r) (simp_all add: keepsI)

text \<open>
  A step of the server: \<open>R\<close> relates the registry before and after, the invariant
  and the bandwidth ledger survive.
\<close>

definition steps_by :: "CpEnv \<Rightarrow> (registry \<Rightarrow> registry \<Rightarrow> bool) \<Rightarrow> (Db CpState \<Rightarrow> HttpResponse \<times> Db CpState) \<Rightarrow> bool" where
  "steps_by e R h \<longleftrightarrow> keeps (db_inv e) (db_map e) R (\<lambda>st. (Inr (fst (h st)) :: unit + HttpResponse, snd (h st)))"

lemma steps_byD:
  "steps_by e R h \<Longrightarrow> db_inv e (cp_db st) \<Longrightarrow>
    db_inv e (cp_db (snd (h st))) \<and> R (db_map e (cp_db st)) (db_map e (cp_db (snd (h st))))"
  unfolding steps_by_def using keepsD by fastforce

lemma steps_respond: "keeps (db_inv e) (db_map e) R h \<Longrightarrow> steps_by e R (respond h)"
  unfolding steps_by_def by (rule keepsI) (simp add: respond_def case_prod_beta keepsD)

lemma steps_refused:
  assumes "\<And>N. R N N"
  shows "steps_by e R method_not_allowed" "steps_by e R no_route"
  using assms by (simp_all add: steps_by_def keeps_def method_not_allowed_def no_route_def)

lemma snd_without_body [simp]: "snd (without_body h st) = snd (h st)"
  by (simp add: without_body_def case_prod_beta)

lemma steps_without_body: "steps_by e R h \<Longrightarrow> steps_by e R (without_body h)"
  by (simp add: steps_by_def keeps_def)

lemma steps_on_method: "(\<And>N. R N N) \<Longrightarrow> steps_by e R h \<Longrightarrow> steps_by e R (on_method m q h)"
  by (simp add: on_method_def steps_refused steps_without_body)

lemma steps_with_body:
  assumes "\<And>N. R N N" "\<And>a. x = Inr a \<Longrightarrow> steps_by e R (h a)"
  shows "steps_by e R (with_body x h)"
proof (cases x)
  case (Inl r)
  then show ?thesis using assms(1) by (simp add: steps_by_def keeps_def with_body_def)
next
  case (Inr a)
  then have "with_body x h = h a" by (intro ext) (simp add: with_body_def)
  then show ?thesis using assms(2) [OF Inr] by simp
qed

text \<open>The queries change nothing; the three commands change what the service lets them.\<close>

lemma keeps_queries:
  assumes repo: "svc_repo (app_service app) = SqliteNodeRepository e"
  shows "keeps (db_inv e) (db_map e) (=) (health app)" "keeps (db_inv e) (db_map e) (=) (list_nodes ae app)"
    "keeps (db_inv e) (db_map e) (=) (get_node ae app i)" "keeps (db_inv e) (db_map e) (=) (select_node ae app)"
    "keeps (db_inv e) (db_map e) (=) (metrics ae)"
  unfolding health_def list_nodes_def get_node_def select_node_def
  by (intro keeps_bind_query keeps_map_err sqlite.keeps_list [OF repo] sqlite.keeps_get [OF repo]
      sqlite.keeps_select [OF repo] keeps_pure refl)+ (simp add: keeps_def metrics_def)

lemma keeps_register_node:
  assumes "\<And>N. R N N"
    and "authorize ae header (app_auth app) = Inr () \<Longrightarrow> validate_register req = Inr () \<Longrightarrow>
      keeps (db_inv e) (db_map e) R (service_register (app_service app) req)"
  shows "keeps (db_inv e) (db_map e) R (register_node ae app header req)"
  unfolding register_node_def
  using assms by (intro keeps_checked keeps_bind_update keeps_map_err keeps_pure) simp_all

lemma keeps_heartbeat_node:
  assumes "\<And>N. R N N"
    and "authorize ae header (app_auth app) = Inr () \<Longrightarrow>
      keeps (db_inv e) (db_map e) R (service_heartbeat (app_service app) (hb\<lparr>hb_node_id := i\<rparr>))"
  shows "keeps (db_inv e) (db_map e) R (heartbeat_node ae app header i hb)"
  unfolding heartbeat_node_def Let_def
  using assms by (intro keeps_checked keeps_bind_update keeps_map_err keeps_pure) simp_all

lemma keeps_drain_node:
  assumes "\<And>N. R N N"
    and "authorize ae header (app_auth app) = Inr () \<Longrightarrow>
      keeps (db_inv e) (db_map e) R (service_drain (app_service app) i)"
  shows "keeps (db_inv e) (db_map e) R (drain_node ae app header i)"
  unfolding drain_node_def
  using assms
  by (intro keeps_checked keeps_bind_update [of _ _ R "io_map_err f m" for f m] keeps_map_err keeps_bind_query keeps_pure)
    simp_all

lemma steps_if: "steps_by e R a \<Longrightarrow> steps_by e R b \<Longrightarrow> steps_by e R (if c then a else b)"
  by simp

lemma steps_query: "keeps (db_inv e) (db_map e) (=) h \<Longrightarrow> (\<And>N. R N N) \<Longrightarrow> steps_by e R (respond h)"
  by (rule steps_respond, rule keeps_weaken)

lemma steps_router:
  assumes repo: "svc_repo (app_service app) = SqliteNodeRepository e" and refl: "\<And>N. R N N"
    and reg: "\<And>req. authorize ae (hq_authorization q) (app_auth app) = Inr () \<Longrightarrow> validate_register req = Inr () \<Longrightarrow>
      keeps (db_inv e) (db_map e) R (service_register (app_service app) req)"
    and hb: "\<And>hb. authorize ae (hq_authorization q) (app_auth app) = Inr () \<Longrightarrow>
      keeps (db_inv e) (db_map e) R (service_heartbeat (app_service app) hb)"
    and drain: "\<And>i. authorize ae (hq_authorization q) (app_auth app) = Inr () \<Longrightarrow>
      keeps (db_inv e) (db_map e) R (service_drain (app_service app) i)"
  shows "steps_by e R (router ae app q)"
proof -
  have get: "steps_by e R (respond (get_node ae app i))" for i
    by (rule steps_query [OF keeps_queries(3) [OF repo] refl])
  have beat: "steps_by e R (with_body x (\<lambda>b. respond (heartbeat_node ae app (hq_authorization q) i b)))" for x i
    by (intro steps_with_body steps_respond keeps_heartbeat_node hb refl)
  have dr: "steps_by e R (respond (drain_node ae app (hq_authorization q) i))" for i
    by (intro steps_respond keeps_drain_node drain refl)
  have rest: "steps_by e R (case hq_path q of
        [nodes, i] \<Rightarrow> if nodes = ''nodes'' \<and> i \<noteq> [] then on_method GET q (respond (get_node ae app i)) else no_route
      | [nodes, i, action] \<Rightarrow>
          if nodes = ''nodes'' \<and> i \<noteq> [] \<and> action = ''heartbeat'' then
            on_method POST q (with_body (env_json_heartbeat ae (hq_body q)) (\<lambda>hb. respond (heartbeat_node ae app (hq_authorization q) i hb)))
          else if nodes = ''nodes'' \<and> i \<noteq> [] \<and> action = ''drain'' then
            on_method POST q (respond (drain_node ae app (hq_authorization q) i))
          else no_route
      | _ \<Rightarrow> no_route)"
    by (auto split: list.split simp: refl get beat dr intro!: steps_on_method steps_refused)
  have reg': "steps_by e R (with_body x (\<lambda>req. respond (register_node ae app (hq_authorization q) req)))" for x
    by (intro steps_with_body steps_respond keeps_register_node reg refl)
  note queries = keeps_queries [OF repo, THEN steps_query, of R, OF refl]
  show ?thesis
    unfolding router_def Let_def by (intro steps_if steps_on_method queries reg' refl rest)
qed

section \<open>Properties\<close>

text \<open>A concrete environment and request for the witnesses.\<close>

definition sample_api :: ApiEnv where
  "sample_api = \<lparr>env_to_str = (\<lambda>v. Some ''Bearer wrong''), env_json_register = (\<lambda>_. Inr sample_request),
     env_json_heartbeat = (\<lambda>_. Inr (sample_beat 9)), env_sql_message = (\<lambda>_. ''sql''), env_render = (\<lambda>_. ''text'')\<rparr>"

definition sample_post :: "string list \<Rightarrow> HttpRequest" where
  "sample_post path = \<lparr>hq_method = POST, hq_path = path, hq_authorization = Some [], hq_body = []\<rparr>"

definition sample_app :: "string option \<Rightarrow> AppState" where
  "sample_app tok = app_state (from_repo_sql sample_env HealthPolicy_default) tok"

text \<open>
  C8. Every change needs the token. With a bearer token configured, a request whose authorization header is not
  "Bearer" followed by exactly that token leaves every node of the registry as it was, whatever its path, method and body.
\<close>

theorem unauthenticated_request_changes_nothing:
  assumes "db_inv e (cp_db st)" and "app = app_state (from_repo_sql e p) (Some token)" and "token \<noteq> []"
    and "\<And>v. hq_authorization q = Some v \<Longrightarrow> env_to_str ae v \<noteq> Some (''Bearer '' @ token)"
    and "router ae app q st = (resp, st')"
  shows "db_map e (cp_db st') = db_map e (cp_db st)"
proof -
  have "authorize ae (hq_authorization q) (app_auth app) \<noteq> Inr ()"
    using assms(2-4) by (auto simp: app_state_def authorize_bearer)
  then have "steps_by e (=) (router ae app q)"
    using assms(2) by (intro steps_router) (simp_all add: app_state_def)
  from steps_byD [OF this assms(1)] assms(5) show ?thesis by simp
qed

theorem unauthenticated_request_changes_nothing_witness:
  "db_map sample_env (cp_db (snd (router sample_api (sample_app (Some ''t'')) (sample_post [''nodes'', ''n1'', ''drain''])
     (service_start sample_db)))) = db_map sample_env sample_db"
  using unauthenticated_request_changes_nothing [of sample_env "service_start sample_db", OF _ sample_app_def,
      where q = "sample_post [''nodes'', ''n1'', ''drain'']" and ae = sample_api, OF _ _ _ surjective_pairing]
    sample_db_ok(1)
  by (simp add: sample_post_def sample_api_def)

text \<open>What the API guarantees of a registered node.\<close>

definition node_valid :: "Node \<Rightarrow> bool" where
  "node_valid n \<longleftrightarrow> \<not> blank (nd_id n) \<and> \<not> blank (nd_address n) \<and> nd_max_connections n \<noteq> 0 \<and> nd_bandwidth_limit n \<noteq> 0"

definition valid_registry :: "registry \<Rightarrow> bool" where
  "valid_registry N \<longleftrightarrow> (\<forall>i n. N i = Some n \<longrightarrow> node_valid n)"

lemma valid_upd: "valid_registry N \<Longrightarrow> node_valid n \<Longrightarrow> valid_registry (N(i \<mapsto> n))"
  by (simp add: valid_registry_def)

lemma node_valid_updates [simp]:
  "node_valid (beat_node hb t n) = node_valid n" "node_valid (state_node s t n) = node_valid n"
  "node_valid (spec_heartbeat p hb t u n) = node_valid n"
  by (simp_all add: node_valid_def beat_node_def state_node_def spec_heartbeat_def Let_def)

lemma valid_register:
  assumes "validate_register req = Inr ()" "valid_registry N"
  shows "valid_registry (spec_register req t N)"
proof -
  have "node_valid (case N (rr_node_id req) of None \<Rightarrow> new_node req t | Some n \<Rightarrow> renew_node req t n)"
    using assms by (cases "N (rr_node_id req)")
      (auto simp: valid_registry_def node_valid_def new_node_def renew_node_def validate_register_def split: if_splits)
  then show ?thesis using assms(2) unfolding spec_register_def by (intro valid_upd)
qed

text \<open>
  C31. Validation is effective: if every registered node has a non-blank id and address and positive
  connection and bandwidth limits, the same holds after any HTTP request whatsoever.
\<close>

theorem api_keeps_registry_valid:
  assumes "db_inv e (cp_db st)" and "app = app_state (from_repo_sql e p) tok"
    and "valid_registry (db_map e (cp_db st))" and "router ae app q st = (resp, st')"
  shows "valid_registry (db_map e (cp_db st')) \<and> db_inv e (cp_db st')"
proof -
  let ?R = "\<lambda>N N'. valid_registry N \<longrightarrow> valid_registry N'"
  have repo: "svc_repo (app_service app) = SqliteNodeRepository e" using assms(2) by (simp add: app_state_def)
  have "steps_by e ?R (router ae app q)"
  proof (rule steps_router [OF repo])
    show "keeps (db_inv e) (db_map e) ?R (service_register (app_service app) req)"
      if "validate_register req = Inr ()" for req
      using that by (intro sqlite.keeps_register_by [OF repo]) (simp_all add: valid_register)
    show "keeps (db_inv e) (db_map e) ?R (service_heartbeat (app_service app) hb)" for hb
      by (intro sqlite.keeps_heartbeat_by [OF repo]) (auto simp: valid_registry_def)
    show "keeps (db_inv e) (db_map e) ?R (service_drain (app_service app) i)" for i
      by (intro sqlite.keeps_drain_by [OF repo]) (auto simp: valid_registry_def)
  qed simp
  from steps_byD [OF this assms(1)] assms(3,4) show ?thesis by simp
qed

theorem api_keeps_registry_valid_witness:
  "valid_registry (db_map sample_env (cp_db (snd (router sample_api (sample_app None) (sample_post [''nodes'', ''register''])
     (service_start sample_db)))))"
proof -
  have "valid_registry (db_map sample_env sample_db)"
    by (simp add: sample_db_ok valid_registry_def node_valid_def new_node_def sample_request_def blank_def)
  then show ?thesis
    using api_keeps_registry_valid [of sample_env "service_start sample_db", OF _ sample_app_def _ surjective_pairing]
      sample_db_ok(1) by simp
qed

text \<open>
  C32. The selection endpoint answers 503 exactly when the registry holds no Healthy or Degraded
  node and otherwise 200 with such a node, provided the database answers. It needs no token.
\<close>

theorem select_endpoint_status:
  assumes "db_inv e (cp_db st)" "\<forall>i. \<not> ce_fault e i" "app = app_state (from_repo_sql e p) tok"
    and "hq_method q = POST" "hq_path q = [''nodes'', ''select'']"
    and "router ae app q st = (resp, st')"
  shows "(rs_status resp = 503 \<longleftrightarrow> (\<forall>i n. db_map e (cp_db st) i = Some n \<longrightarrow> \<not> is_selectable n)) \<and>
    (rs_status resp = 503 \<or> rs_status resp = 200 \<and>
      (\<exists>n. db_map e (cp_db st) (nd_id n) = Some n \<and> is_selectable n \<and>
         rs_body resp = NodeBody (NodeResponse_from_node n (nd_bandwidth_limit n))))"
proof -
  have svc: "app_service app = from_repo_sql e p" using assms(3) by (simp add: app_state_def)
  have "quiet_inv e (cp_db st)" using assms(1,2) by (simp add: quiet_inv_def)
  then obtain r s1 where run: "service_select (from_repo_sql e p) st = (Inr r, s1)"
    using totalD [OF quiet.total_select [OF from_repo_sql_sel(1)]] by blast
  have resp: "resp = fst (respond (select_node ae app) st)"
    using assms(4-6) by (simp add: router_def on_method_def)
  note ok = sqlite.service_select_ok [OF assms(1) from_repo_sql_sel(1) run]
  show ?thesis
  proof (cases r)
    case None
    then show ?thesis using ok run resp
      by (simp add: respond_def select_node_def svc io_bind_def io_map_err_def into_response_def)
  next
    case (Some n)
    then show ?thesis using ok run resp
      by (auto simp: respond_def select_node_def svc io_bind_def io_map_err_def into_response_def)
  qed
qed

theorem select_endpoint_status_witness:
  "rs_status (fst (router sample_api (sample_app None) (sample_post [''nodes'', ''select'']) (service_start sample_db))) = 503"
proof -
  have "\<forall>i n. db_map sample_env sample_db i = Some n \<longrightarrow> \<not> is_selectable n"
    by (simp add: sample_db_ok new_node_def is_selectable_def)
  then show ?thesis
    using select_endpoint_status [of sample_env "service_start sample_db", OF _ sample_quiet(2) sample_app_def _ _ surjective_pairing,
        where q = "sample_post [''nodes'', ''select'']" and ae = sample_api] sample_db_ok(1)
    by (simp add: sample_post_def)
qed

end
