(* ===== verification/CP_Server.thy ===== *)
theory CP_Server
  imports CP_Concurrent CP_Api
begin

text \<open>
  The running control plane, from \<^verbatim>\<open>server.rs\<close>: HTTP requests in flight, the health sweep and the
  shutdown token as one step relation. A request is the task of the service operation it leads to; a step runs
  one statement of one task, so the relation has every interleaving. The graceful shutdown of \<^verbatim>\<open>axum::serve\<close> is taken
  as documented: it stops accepting and waits for the requests in flight.
\<close>

section \<open>From requests to tasks\<close>

definition only :: "HttpMethod \<Rightarrow> HttpRequest \<Rightarrow> cp_request option \<Rightarrow> cp_request option" where
  "only m q c = (if hq_method q = m \<or> m = GET \<and> hq_method q = HEAD then c else None)"

definition checked :: "ApiError + unit \<Rightarrow> cp_request option \<Rightarrow> cp_request option" where
  "checked r c = (case r of Inl _ \<Rightarrow> None | Inr _ \<Rightarrow> c)"

text \<open>The service operation a request reaches, if it is routed, extracted, authorized and valid.\<close>

definition service_call :: "ApiEnv \<Rightarrow> AppState \<Rightarrow> HttpRequest \<Rightarrow> cp_request option" where
  "service_call ae app q =
     (let auth = authorize ae (hq_authorization q) (app_auth app) in
      if hq_path q = [''health''] then only GET q (Some ReqList)
      else if hq_path q = [''nodes''] then only GET q (Some ReqList)
      else if hq_path q = [''nodes'', ''select''] then only POST q (Some ReqSelect)
      else if hq_path q = [''nodes'', ''register''] then
        only POST q (case env_json_register ae (hq_body q) of Inl _ \<Rightarrow> None
          | Inr req \<Rightarrow> checked auth (checked (validate_register req) (Some (ReqRegister req))))
      else if hq_path q = [''metrics''] then None
      else (case hq_path q of
        [nodes, i] \<Rightarrow> if nodes = ''nodes'' \<and> i \<noteq> [] then only GET q (Some (ReqGet i)) else None
      | [nodes, i, action] \<Rightarrow>
          if nodes = ''nodes'' \<and> i \<noteq> [] \<and> action = ''heartbeat'' then
            only POST q (case env_json_heartbeat ae (hq_body q) of Inl _ \<Rightarrow> None
              | Inr hb \<Rightarrow> checked auth (checked (validate_heartbeat (hb\<lparr>hb_node_id := i\<rparr>))
                  (Some (ReqHeartbeat (hb\<lparr>hb_node_id := i\<rparr>)))))
          else if nodes = ''nodes'' \<and> i \<noteq> [] \<and> action = ''drain'' then
            only POST q (checked auth (Some (ReqDrain i)))
          else None
      | _ \<Rightarrow> None))"

definition call_effect :: "Db ControlPlaneService \<Rightarrow> (Db \<Rightarrow> DateTime \<times> Db) \<Rightarrow> cp_request option \<Rightarrow> Db CpState \<Rightarrow> Db CpState" where
  "call_effect svc clock c st = (case c of None \<Rightarrow> st | Some r \<Rightarrow> snd (run_task (request_task svc clock r) st))"

lemma snd_outcome [simp]: "snd (outcome f r) = snd r"
  by (cases r; cases "fst r") (auto simp: outcome_def)

lemma snd_respond [simp]: "snd (respond h st) = snd (h st)"
  by (simp add: respond_def case_prod_beta)

lemma snd_bind_pure: "(\<And>x. snd \<circ> f x = id) \<Longrightarrow> snd (io_bind m f st) = snd (m st)"
  by (cases "m st"; cases "fst (m st)") (auto simp: io_bind_def fun_eq_iff)

lemma snd_pure [simp]: "snd \<circ> io_return x = id" "snd \<circ> io_lift r = id"
  by (auto simp: fun_eq_iff io_return_def io_lift_def)

lemmas tasks_alone = heartbeat_task_alone drain_task_alone register_task_alone list_task_alone get_task_alone
  select_task_alone sweep_task_alone

lemma call_effect_simps:
  "call_effect svc clock None st = st"
  "call_effect svc clock (only m q c) st = (if hq_method q = m \<or> m = GET \<and> hq_method q = HEAD then call_effect svc clock c st else st)"
  "call_effect svc clock (checked r c) st = (case r of Inl _ \<Rightarrow> st | Inr _ \<Rightarrow> call_effect svc clock c st)"
  "call_effect svc clock (Some (ReqRegister req)) st = snd (service_register svc req st)"
  "call_effect svc clock (Some (ReqHeartbeat hb)) st = snd (service_heartbeat svc hb st)"
  "call_effect svc clock (Some (ReqDrain i)) st = snd (service_drain svc i st)"
  "call_effect svc clock (Some ReqList) st = snd (service_list svc st)"
  "call_effect svc clock (Some (ReqGet i)) st = snd (service_get svc i st)"
  "call_effect svc clock (Some ReqSelect) st = snd (service_select svc st)"
  by (simp_all add: call_effect_def only_def checked_def tasks_alone split: sum.split)

lemma bound_lift_pure [simp]: "snd \<circ> io_bind (io_lift r) (\<lambda>x. io_return (g x)) = id"
  by (cases r) (auto simp: fun_eq_iff io_bind_def io_lift_def io_return_def)

lemma snd_checked: "snd (io_bind (io_lift r) f st) = (case r of Inl _ \<Rightarrow> st | Inr x \<Rightarrow> snd (f x st))"
  by (cases r) (simp_all add: io_bind_def io_lift_def)

lemma handler_effects:
  "snd (health app st) = snd (service_list (app_service app) st)"
  "snd (list_nodes ae app st) = snd (service_list (app_service app) st)"
  "snd (get_node ae app i st) = snd (service_get (app_service app) i st)"
  "snd (select_node ae app st) = snd (service_select (app_service app) st)"
  "snd (metrics ae st) = st"
  by (simp_all add: health_def list_nodes_def get_node_def select_node_def metrics_def snd_bind_pure snd_io_map_err)

lemma guarded_effects:
  "snd (register_node ae app header req st) = (case authorize ae header (app_auth app) of Inl _ \<Rightarrow> st
     | Inr _ \<Rightarrow> (case validate_register req of Inl _ \<Rightarrow> st | Inr _ \<Rightarrow> snd (service_register (app_service app) req st)))"
  "snd (heartbeat_node ae app header i hb st) = (case authorize ae header (app_auth app) of Inl _ \<Rightarrow> st
     | Inr _ \<Rightarrow> (case validate_heartbeat (hb\<lparr>hb_node_id := i\<rparr>) of Inl _ \<Rightarrow> st
     | Inr _ \<Rightarrow> snd (service_heartbeat (app_service app) (hb\<lparr>hb_node_id := i\<rparr>) st)))"
  "snd (drain_node ae app header i st) = (case authorize ae header (app_auth app) of Inl _ \<Rightarrow> st
     | Inr _ \<Rightarrow> snd (service_drain (app_service app) i st))"
  by (simp_all add: register_node_def heartbeat_node_def drain_node_def Let_def snd_checked snd_bind_pure snd_io_map_err split: sum.split)

lemma snd_on_method: "snd (on_method m q h st) = (if hq_method q = m \<or> m = GET \<and> hq_method q = HEAD then snd (h st) else st)"
  by (simp add: on_method_def method_not_allowed_def)

lemma snd_with_body: "snd (with_body x h st) = (case x of Inl _ \<Rightarrow> st | Inr a \<Rightarrow> snd (h a st))"
  by (simp add: with_body_def split: sum.split)

lemma snd_no_route: "snd (no_route st) = st"
  by (simp add: no_route_def)

lemmas route_effects = handler_effects guarded_effects snd_on_method snd_with_body snd_no_route call_effect_simps

lemma router_effect: "snd (router ae app q st) = call_effect (app_service app) clock (service_call ae app q) st"
proof -
  have choose: "snd ((if b then f else g) st) = (if b then snd (f st) else snd (g st))"
    "call_effect svc clock (if b then c else d) st = (if b then call_effect svc clock c st else call_effect svc clock d st)"
    for b f g svc c d by simp_all
  have body: "call_effect svc clock (case x of Inl _ \<Rightarrow> None | Inr a \<Rightarrow> k a) st = (case x of Inl _ \<Rightarrow> st | Inr a \<Rightarrow> call_effect svc clock (k a) st)"
    for svc k and x :: "HttpResponse + 'a" by (cases x) (simp_all add: call_effect_simps)
  show ?thesis
    unfolding router_def service_call_def Let_def
    by (simp only: choose body route_effects snd_respond split: list.split) (simp add: route_effects choose body)
qed

section \<open>The running server\<close>

text \<open>
  The sweep's first tick fires at once and is skipped; afterwards its \<^verbatim>\<open>select!\<close> waits for the token
  and the next tick, and takes either when both are ready. When a client disconnects, its request is dropped
  between two statements. A panic in a handler is not modelled.
\<close>

datatype SweepPhase = FirstTick | Waiting | Sweeping "Db CpState task" | SweepStopped

record CpServer =
  cs_state :: "Db CpState"
  cs_requests :: "Db CpState task list"
  cs_sweep :: SweepPhase
  cs_cancelled :: bool
  cs_accepting :: bool
  cs_returned :: bool

definition cp_server_start :: "Db CpState \<Rightarrow> CpServer" where
  "cp_server_start st = \<lparr>cs_state = st, cs_requests = [], cs_sweep = FirstTick, cs_cancelled = False,
     cs_accepting = True, cs_returned = False\<rparr>"

inductive cp_server_step :: "ApiEnv \<Rightarrow> (Db \<Rightarrow> DateTime \<times> Db) \<Rightarrow> AppState \<Rightarrow> CpServer \<Rightarrow> CpServer \<Rightarrow> bool"
  for ae clock app where
  cs_request: "cs_accepting s \<Longrightarrow> service_call ae app q = Some r \<Longrightarrow>
    cp_server_step ae clock app s (s\<lparr>cs_requests := cs_requests s @ [request_task (app_service app) clock r]\<rparr>)"
| cs_refused: "cs_accepting s \<Longrightarrow> service_call ae app q = None \<Longrightarrow> cp_server_step ae clock app s s"
| cs_poll: "i < length (cs_requests s) \<Longrightarrow> cs_requests s ! i = Await f \<Longrightarrow> f (cs_state s) = (st', t) \<Longrightarrow>
    cp_server_step ae clock app s (s\<lparr>cs_state := st', cs_requests := (cs_requests s)[i := t]\<rparr>)"
| cs_reply: "i < length (cs_requests s) \<Longrightarrow> cs_requests s ! i = Finished r \<Longrightarrow>
    cp_server_step ae clock app s (s\<lparr>cs_requests := take i (cs_requests s) @ drop (Suc i) (cs_requests s)\<rparr>)"
| cs_disconnect: "i < length (cs_requests s) \<Longrightarrow>
    cp_server_step ae clock app s (s\<lparr>cs_requests := take i (cs_requests s) @ drop (Suc i) (cs_requests s)\<rparr>)"
| cs_first_tick: "cs_sweep s = FirstTick \<Longrightarrow> cp_server_step ae clock app s (s\<lparr>cs_sweep := Waiting\<rparr>)"
| cs_tick: "cs_sweep s = Waiting \<Longrightarrow>
    cp_server_step ae clock app s (s\<lparr>cs_sweep := Sweeping (sweep_task (app_service app) clock)\<rparr>)"
| cs_sweep_poll: "cs_sweep s = Sweeping (Await f) \<Longrightarrow> f (cs_state s) = (st', t) \<Longrightarrow>
    cp_server_step ae clock app s (s\<lparr>cs_state := st', cs_sweep := Sweeping t\<rparr>)"
| cs_swept: "cs_sweep s = Sweeping (Finished r) \<Longrightarrow> cp_server_step ae clock app s (s\<lparr>cs_sweep := Waiting\<rparr>)"
| cs_sweep_stop: "cs_sweep s = Waiting \<Longrightarrow> cs_cancelled s \<Longrightarrow>
    cp_server_step ae clock app s (s\<lparr>cs_sweep := SweepStopped\<rparr>)"
| cs_cancel: "cp_server_step ae clock app s (s\<lparr>cs_cancelled := True\<rparr>)"
| cs_close: "cs_cancelled s \<Longrightarrow> cp_server_step ae clock app s (s\<lparr>cs_accepting := False\<rparr>)"
| cs_return: "\<not> cs_accepting s \<Longrightarrow> cs_requests s = [] \<Longrightarrow> cs_sweep s = SweepStopped \<Longrightarrow>
    cp_server_step ae clock app s (s\<lparr>cs_returned := True\<rparr>)"

inductive_cases cp_server_stepE: "cp_server_step ae clock app s s'"

inductive cp_server_reach :: "ApiEnv \<Rightarrow> (Db \<Rightarrow> DateTime \<times> Db) \<Rightarrow> AppState \<Rightarrow> Db CpState \<Rightarrow> CpServer \<Rightarrow> bool"
  for ae clock app st where
  cs_start: "cp_server_reach ae clock app st (cp_server_start st)"
| cs_step: "cp_server_reach ae clock app st s \<Longrightarrow> cp_server_step ae clock app s s' \<Longrightarrow> cp_server_reach ae clock app st s'"

section \<open>Invariants of the server\<close>

fun sweep_tasks :: "SweepPhase \<Rightarrow> Db CpState task set" where
  "sweep_tasks (Sweeping t) = {t}"
| "sweep_tasks _ = {}"

definition server_ok :: "(Db CpState \<Rightarrow> bool) \<Rightarrow> CpServer \<Rightarrow> bool" where
  "server_ok P s \<longleftrightarrow> P (cs_state s) \<and> (\<forall>t \<in> set (cs_requests s) \<union> sweep_tasks (cs_sweep s). keeps_task P t)"

definition shutdown_ok :: "CpServer \<Rightarrow> bool" where
  "shutdown_ok s \<longleftrightarrow> (\<not> cs_accepting s \<longrightarrow> cs_cancelled s) \<and> (cs_sweep s = SweepStopped \<longrightarrow> cs_cancelled s) \<and>
     (cs_returned s \<longrightarrow> \<not> cs_accepting s \<and> cs_requests s = [] \<and> cs_sweep s = SweepStopped)"

lemma keeps_task_poll: "keeps_task P (Await f) \<Longrightarrow> P st \<Longrightarrow> f st = (st', t) \<Longrightarrow> P st' \<and> keeps_task P t"
  by (metis keeps_task_simps(2) fst_conv snd_conv)

lemma server_ok_step:
  assumes "cp_server_step ae clock app s s'" "server_ok P s"
    and tasks: "\<And>r. keeps_task P (request_task (app_service app) clock r)"
  shows "server_ok P s'"
  using assms(1)
proof (cases rule: cp_server_step.cases)
  case (cs_poll i f st' t)
  have "Await f \<in> set (cs_requests s)" using cs_poll(2,3) by (metis nth_mem)
  then have "keeps_task P (Await f)" "P (cs_state s)" using assms(2) by (simp_all add: server_ok_def)
  then have "P st'" "keeps_task P t" using keeps_task_poll [of P f "cs_state s"] cs_poll(4) by simp_all
  then show ?thesis
    using assms(2) cs_poll(1) set_update_subset_insert [of "cs_requests s" i t] by (auto simp: server_ok_def)
next
  case (cs_sweep_poll f st' t)
  have "keeps_task P (Await f)" "P (cs_state s)" using assms(2) cs_sweep_poll(2) by (simp_all add: server_ok_def)
  then have "P st'" "keeps_task P t" using keeps_task_poll [of P f "cs_state s"] cs_sweep_poll(3) by simp_all
  then show ?thesis using assms(2) cs_sweep_poll(1) by (simp add: server_ok_def)
next
  case cs_tick
  then show ?thesis using assms(2) tasks [of ReqSweep] by (simp add: server_ok_def)
qed (use assms(2) tasks in \<open>auto simp: server_ok_def dest: in_set_takeD in_set_dropD\<close>)

lemma server_ok_reach:
  assumes "cp_server_reach ae clock app st s" "P st" "\<And>r. keeps_task P (request_task (app_service app) clock r)"
  shows "server_ok P s"
  using assms(1)
proof (induction rule: cp_server_reach.induct)
  case cs_start
  show ?case using assms(2) by (simp add: server_ok_def cp_server_start_def)
next
  case (cs_step s s')
  show ?case by (rule server_ok_step [OF cs_step(2,3) assms(3)])
qed

lemma shutdown_ok_reach: "cp_server_reach ae clock app st s \<Longrightarrow> shutdown_ok s"
proof (induction rule: cp_server_reach.induct)
  case cs_start
  show ?case by (simp add: shutdown_ok_def cp_server_start_def)
next
  case (cs_step s s')
  from cs_step(2,3) show ?case by (auto simp: shutdown_ok_def elim!: cp_server_stepE)
qed

lemma server_retains:
  assumes "db_inv e (cp_db st)" "app_service app = from_repo_sql e p" "cp_server_reach ae (utc_now e) app st s"
  shows "retains (db_inv e) (db_map e) (dom (db_map e (cp_db st))) st (cs_state s)"
proof -
  let ?P = "retains (db_inv e) (db_map e) (dom (db_map e (cp_db st))) st"
  have start: "?P st" using assms(1) by (simp add: retains_def)
  have "keeps_task ?P (request_task (app_service app) (utc_now e) r)" for r
    unfolding assms(2) by (rule sqlite.keeps_request_task [OF from_repo_sql_sel(1)])
  then show ?thesis using server_ok_reach [where P = ?P, OF assms(3) start] by (simp add: server_ok_def)
qed

section \<open>Shutting down\<close>

abbreviation cp_server_steps :: "ApiEnv \<Rightarrow> (Db \<Rightarrow> DateTime \<times> Db) \<Rightarrow> AppState \<Rightarrow> CpServer \<Rightarrow> CpServer \<Rightarrow> bool" where
  "cp_server_steps ae clock app \<equiv> (cp_server_step ae clock app)\<^sup>*\<^sup>*"

definition same_phase :: "CpServer \<Rightarrow> CpServer \<Rightarrow> bool" where
  "same_phase s s' \<longleftrightarrow> cs_sweep s' = cs_sweep s \<and> cs_cancelled s' = cs_cancelled s \<and> cs_accepting s' = cs_accepting s"

lemma request_finishes:
  "cs_requests s = t # ts \<Longrightarrow> \<exists>s'. cp_server_steps ae clock app s s' \<and> cs_requests s' = ts \<and> same_phase s s'"
proof (induction t arbitrary: s)
  case (Finished r)
  then have "cp_server_step ae clock app s (s\<lparr>cs_requests := ts\<rparr>)" using cs_reply [of 0 s r] by simp
  then have "cp_server_steps ae clock app s (s\<lparr>cs_requests := ts\<rparr>)" by (rule r_into_rtranclp)
  then show ?case by (intro exI [of _ "s\<lparr>cs_requests := ts\<rparr>"]) (simp add: same_phase_def)
next
  case (Await f)
  obtain st' t where t: "f (cs_state s) = (st', t)" by fastforce
  let ?s = "s\<lparr>cs_state := st', cs_requests := t # ts\<rparr>"
  have "cp_server_step ae clock app s ?s" using cs_poll [of 0 s f st' t] Await.prems t by simp
  moreover obtain s' where "cp_server_steps ae clock app ?s s'" "cs_requests s' = ts" "same_phase ?s s'"
    using Await.IH [of "(st', t)" t ?s] t by (metis (no_types, lifting) CpServer.select_convs(2) CpServer.surjective
        CpServer.update_convs(2) rangeI snds.intros snd_conv)
  ultimately show ?case by (intro exI [of _ s']) (simp add: same_phase_def converse_rtranclp_into_rtranclp)
qed

lemma requests_finish: "\<exists>s'. cp_server_steps ae clock app s s' \<and> cs_requests s' = [] \<and> same_phase s s'"
proof (induction "cs_requests s" arbitrary: s)
  case Nil
  then show ?case by (intro exI [of _ s]) (simp add: same_phase_def)
next
  case (Cons t ts)
  obtain s1 where 1: "cp_server_steps ae clock app s s1" "cs_requests s1 = ts" "same_phase s s1"
    using request_finishes [OF Cons(2) [symmetric]] by blast
  obtain s2 where 2: "cp_server_steps ae clock app s1 s2" "cs_requests s2 = []" "same_phase s1 s2"
    using Cons(1) [OF 1(2) [symmetric]] by blast
  show ?case using rtranclp_trans [OF 1(1) 2(1)] 1(3) 2(2,3) by (intro exI [of _ s2]) (simp add: same_phase_def)
qed

lemma sweep_finishes:
  "cs_sweep s = Sweeping t \<Longrightarrow> \<exists>s'. cp_server_steps ae clock app s s' \<and> cs_sweep s' = Waiting"
proof (induction t arbitrary: s)
  case (Finished r)
  then show ?case using cs_swept [of s r ae clock app] by (intro exI [of _ "s\<lparr>cs_sweep := Waiting\<rparr>"]) (simp add: r_into_rtranclp)
next
  case (Await f)
  obtain st' t where t: "f (cs_state s) = (st', t)" by fastforce
  let ?s = "s\<lparr>cs_state := st', cs_sweep := Sweeping t\<rparr>"
  have "cp_server_step ae clock app s ?s" using cs_sweep_poll Await.prems t by simp
  moreover have "cs_sweep ?s = Sweeping t" by simp
  then obtain s' where "cp_server_steps ae clock app ?s s'" "cs_sweep s' = Waiting"
    using Await.IH [of "(st', t)" t ?s] t by (metis rangeI snds.intros snd_conv)
  ultimately show ?case by (intro exI [of _ s']) (simp add: converse_rtranclp_into_rtranclp)
qed

lemma sweep_idles: "\<exists>s'. cp_server_steps ae clock app s s' \<and> cs_sweep s' \<in> {Waiting, SweepStopped}"
proof (cases "cs_sweep s")
  case FirstTick
  then show ?thesis using cs_first_tick [of s ae clock app] by (intro exI [of _ "s\<lparr>cs_sweep := Waiting\<rparr>"]) (simp add: r_into_rtranclp)
next
  case (Sweeping t)
  then show ?thesis using sweep_finishes by blast
qed auto

text \<open>Whatever is in flight, the server can be brought to return.\<close>

lemma shutdown_possible: "\<exists>s'. cp_server_steps ae clock app s s' \<and> cs_returned s'"
proof -
  obtain s1 where 1: "cp_server_steps ae clock app s s1" "cs_sweep s1 \<in> {Waiting, SweepStopped}" using sweep_idles by blast
  define s2 where "s2 = s1\<lparr>cs_cancelled := True\<rparr>"
  define s3 where "s3 = s2\<lparr>cs_accepting := False\<rparr>"
  define s4 where "s4 = s3\<lparr>cs_sweep := SweepStopped\<rparr>"
  have 2: "cp_server_step ae clock app s1 s2" unfolding s2_def by (rule cs_cancel)
  have 3: "cp_server_step ae clock app s2 s3" unfolding s3_def by (rule cs_close) (simp add: s2_def)
  have 4: "cp_server_steps ae clock app s3 s4"
  proof (cases "cs_sweep s1")
    case Waiting
    then show ?thesis unfolding s4_def by (intro r_into_rtranclp cs_sweep_stop) (simp_all add: s2_def s3_def)
  next
    case SweepStopped
    then have "s4 = s3" by (simp add: s4_def s3_def s2_def)
    then show ?thesis by simp
  qed (use 1(2) in simp_all)
  obtain s5 where 5: "cp_server_steps ae clock app s4 s5" "cs_requests s5 = []" "same_phase s4 s5"
    using requests_finish by blast
  have "cp_server_step ae clock app s5 (s5\<lparr>cs_returned := True\<rparr>)"
    by (rule cs_return) (use 5(2,3) in \<open>simp_all add: same_phase_def s4_def s3_def\<close>)
  moreover have "cp_server_steps ae clock app s s5"
    using 1(1) 2 3 4 5(1) by (meson rtranclp.rtrancl_into_rtrancl rtranclp_trans)
  ultimately have "cp_server_steps ae clock app s (s5\<lparr>cs_returned := True\<rparr>)" by simp
  then show ?thesis by (intro exI [of _ "s5\<lparr>cs_returned := True\<rparr>"]) simp
qed

section \<open>Properties\<close>

text \<open>
  C6. The running control plane. In every state its server can reach, whatever requests arrive, however their
  statements and the sweep's interleave, whichever of them fail and whichever clients disconnect midway: ids are unique, every row decodes, no node
  has been lost and the bandwidth ledger is untouched; when the server has returned, no request is in flight and
  the sweep has stopped; and there is always a way to bring it to return.
\<close>

theorem control_plane_server:
  assumes "db_inv e (cp_db st)" "app_service app = from_repo_sql e p"
    and "cp_server_reach ae (utc_now e) app st s"
  shows "distinct (map row_id (db_nodes (cp_db (cs_state s)))) \<and>
    (\<forall>r \<in> set (db_nodes (cp_db (cs_state s))). \<exists>n. row_into_node e r = Inr n) \<and>
    dom (db_map e (cp_db st)) \<subseteq> dom (db_map e (cp_db (cs_state s))) \<and>
    cp_allocators (cs_state s) = cp_allocators st \<and> cp_counters (cs_state s) = cp_counters st \<and>
    (cs_returned s \<longrightarrow> cs_cancelled s \<and> cs_requests s = [] \<and> cs_sweep s = SweepStopped) \<and>
    (\<exists>s'. cp_server_steps ae (utc_now e) app s s' \<and> cs_returned s')"
proof -
  have "db_inv e (cp_db (cs_state s))" and rest: "dom (db_map e (cp_db st)) \<subseteq> dom (db_map e (cp_db (cs_state s)))"
      "cp_allocators (cs_state s) = cp_allocators st" "cp_counters (cs_state s) = cp_counters st"
    using server_retains [OF assms] by (simp_all add: retains_def)
  then have "distinct (map row_id (db_nodes (cp_db (cs_state s)))) \<and>
      (\<forall>r \<in> set (db_nodes (cp_db (cs_state s))). \<exists>n. row_into_node e r = Inr n)"
    by (auto simp: db_inv_def table_ok_def row_ok_def)
  moreover have "cs_returned s \<longrightarrow> cs_cancelled s \<and> cs_requests s = [] \<and> cs_sweep s = SweepStopped"
    using shutdown_ok_reach [OF assms(3)] by (simp add: shutdown_ok_def)
  ultimately show ?thesis using rest shutdown_possible by simp
qed

theorem control_plane_server_witness:
  "\<exists>s. cp_server_reach sample_api (utc_now sample_env) (app_state (from_repo_sql sample_env HealthPolicy_default) None)
       (service_start sample_db) s \<and> cs_requests s \<noteq> [] \<and> ''n1'' \<in> dom (db_map sample_env (cp_db (cs_state s))) \<and>
     (\<exists>s'. cp_server_steps sample_api (utc_now sample_env) (app_state (from_repo_sql sample_env HealthPolicy_default) None) s s' \<and>
        cs_returned s')"
proof -
  let ?app = "app_state (from_repo_sql sample_env HealthPolicy_default) None" and ?st = "service_start sample_db"
  let ?q = "sample_post [''nodes'', ''n1'', ''drain'']"
  let ?s = "(cp_server_start ?st)\<lparr>cs_requests := [request_task (app_service ?app) (utc_now sample_env) (ReqDrain ''n1'')]\<rparr>"
  have call: "service_call sample_api ?app ?q = Some (ReqDrain ''n1'')"
    by (simp add: service_call_def sample_post_def only_def checked_def authorize_def app_state_def)
  have reach: "cp_server_reach sample_api (utc_now sample_env) ?app ?st ?s"
    using cs_step [OF cs_start cs_request [OF _ call]] by (simp add: cp_server_start_def)
  have "db_inv sample_env (cp_db ?st)" "app_service ?app = from_repo_sql sample_env HealthPolicy_default"
    using sample_db_ok(1) by (simp_all add: app_state_def)
  note * = control_plane_server [OF this reach]
  have "''n1'' \<in> dom (db_map sample_env (cp_db ?st))" using sample_db_ok by auto
  then show ?thesis using * reach by (intro exI [of _ ?s]) auto
qed

end
