(* ===== verification/Socks_Auth.thy ===== *)
theory Socks_Auth
  imports Socks_Wire
begin

text \<open>
  Username/password sub-negotiation (RFC 1929), from \<^verbatim>\<open>auth.rs\<close>: the credential
  frame, its parser and its serializer. The serializer writes the lengths with
  \<^verbatim>\<open>as u8\<close>, so the round trip holds for credentials of at most 255 bytes
  (\<open>credential_ok\<close>).
\<close>

definition auth_SUCCESS :: u8 where [simp]: "auth_SUCCESS = 0x00"
definition auth_FAILURE :: u8 where [simp]: "auth_FAILURE = 0x01"
definition MAX_USERNAME_LEN :: nat where [simp]: "MAX_USERNAME_LEN = 255"
definition MAX_PASSWORD_LEN :: nat where [simp]: "MAX_PASSWORD_LEN = 255"

record UsernamePassword =
  up_username :: string
  up_password :: string

definition UsernamePassword_parse :: "bytes \<Rightarrow> ProtocolError + UsernamePassword" where
  "UsernamePassword_parse b =
     and_then (read_u8 (Reader_new b)) (\<lambda>(ver, r).
     if ver \<noteq> AUTH_VERSION then Inl (BadVersion ver) else
     and_then (read_u8 r) (\<lambda>(u, r).
     let ulen = unat u in
     if ulen = 0 \<or> ulen > MAX_USERNAME_LEN then Inl InvalidCredentialLength else
     and_then (read_bytes ulen r) (\<lambda>(username_bytes, r).
     and_then (read_u8 r) (\<lambda>(p, r).
     let plen = unat p in
     if plen > MAX_PASSWORD_LEN then Inl InvalidCredentialLength else
     and_then (read_bytes plen r) (\<lambda>(password_bytes, r).
     and_then (ok_or InvalidCredentialLength (from_utf8 username_bytes)) (\<lambda>username.
     and_then (ok_or InvalidCredentialLength (from_utf8 password_bytes)) (\<lambda>password.
       Inr \<lparr>up_username = username, up_password = password\<rparr>)))))))"

definition UsernamePassword_wire_len :: "UsernamePassword \<Rightarrow> nat" where
  "UsernamePassword_wire_len c = 1 + 1 + length (up_username c) + 1 + length (up_password c)"

definition UsernamePassword_to_vec :: "UsernamePassword \<Rightarrow> bytes" where
  "UsernamePassword_to_vec c =
     [AUTH_VERSION, len_as_u8 (length (up_username c))] @ as_bytes (up_username c) @
     [len_as_u8 (length (up_password c))] @ as_bytes (up_password c)"

definition auth_reply_bytes :: "u8 \<Rightarrow> bytes" where
  "auth_reply_bytes status = [AUTH_VERSION, status]"

definition credential_ok :: "UsernamePassword \<Rightarrow> bool" where
  "credential_ok c \<longleftrightarrow>
     0 < length (up_username c) \<and> length (up_username c) \<le> 255 \<and> length (up_password c) \<le> 255 \<and>
     is_rust_string (up_username c) \<and> is_rust_string (up_password c)"

text \<open>The parser, read off the whole frame at once.\<close>

lemma UsernamePassword_parse_eq:
  "UsernamePassword_parse b =
    (case b of
       [] \<Rightarrow> Inl Truncated
     | ver # b1 \<Rightarrow> if ver \<noteq> AUTH_VERSION then Inl (BadVersion ver) else
    (case b1 of
       [] \<Rightarrow> Inl Truncated
     | u # b2 \<Rightarrow> if u = 0 then Inl InvalidCredentialLength else
    (case drop (unat u) b2 of
       [] \<Rightarrow> Inl Truncated
     | p # b3 \<Rightarrow> if length b3 < unat p then Inl Truncated
       else if utf8_valid (take (unat u) b2) \<and> utf8_valid (take (unat p) b3)
       then Inr \<lparr>up_username = map char_of_byte (take (unat u) b2),
                 up_password = map char_of_byte (take (unat p) b3)\<rparr>
       else Inl InvalidCredentialLength)))"
proof (cases b)
  case (Cons ver b1)
  show ?thesis
  proof (cases b1)
    case (Cons u b2)
    show ?thesis
    proof (cases "drop (unat u) b2")
      case (Cons p b3)
      then obtain us where us: "b2 = us @ p # b3" "length us = unat u" by (rule drop_eq_ConsE)
      have "unat u < 256" "unat p < 256" by (rule unat_u8_less)+
      then show ?thesis
        using us \<open>b = ver # b1\<close> \<open>b1 = u # b2\<close>
        by (auto simp: UsernamePassword_parse_def wire_simps from_utf8_def unat_eq_zero not_less)
    qed (use \<open>b = ver # b1\<close> \<open>b1 = u # b2\<close> unat_u8_less [of u] in
        \<open>auto simp: UsernamePassword_parse_def wire_simps unat_eq_zero\<close>)
  qed (simp add: Cons UsernamePassword_parse_def wire_simps)
qed (simp add: UsernamePassword_parse_def wire_simps)

lemma take_credential:
  assumes "credential_ok c" and "k < length (UsernamePassword_to_vec c)"
  shows "UsernamePassword_parse (take k (UsernamePassword_to_vec c)) = Inl Truncated"
  using assms
  by (auto simp: UsernamePassword_parse_eq UsernamePassword_to_vec_def credential_ok_def
      take_Cons' len_as_u8_eq len_as_u8_eq_0_iff split: list.split)

lemma credential_roundtrip:
  "credential_ok c \<Longrightarrow> UsernamePassword_parse (UsernamePassword_to_vec c @ tail) = Inr c"
  by (simp add: UsernamePassword_parse_eq UsernamePassword_to_vec_def credential_ok_def
      len_as_u8_eq len_as_u8_eq_0_iff is_rust_string_def)

interpretation auth_codec: sound_codec credential_ok UsernamePassword_to_vec UsernamePassword_parse id
proof unfold_locales
  fix bs c
  assume "UsernamePassword_parse bs = Inr c"
  then show "credential_ok c \<and> (\<exists>tail. id bs = UsernamePassword_to_vec c @ tail)"
    by (auto simp: UsernamePassword_parse_eq UsernamePassword_to_vec_def credential_ok_def
        is_rust_string_def unat_eq_zero u8_le_255 split: list.splits if_splits
        elim!: drop_eq_ConsE)
qed (simp_all add: take_credential credential_roundtrip)

lemma UsernamePassword_wire_len_to_vec:
  "length (UsernamePassword_to_vec c) = UsernamePassword_wire_len c"
  by (simp add: UsernamePassword_to_vec_def UsernamePassword_wire_len_def)

section \<open>Properties\<close>

text \<open>
  C17. The RFC 1929 parser accepts exactly the encodings of credentials with a username of 1 to
  255 bytes and a password of at most 255, both UTF-8, followed by anything; so two
  different credentials never share an encoding.
\<close>

theorem credential_parse_iff:
  "UsernamePassword_parse b = Inr c \<longleftrightarrow>
     credential_ok c \<and> (\<exists>tail. b = UsernamePassword_to_vec c @ tail)"
  using auth_codec.decode_iff [of b c] by simp

end
