(* ===== verification/Socks_Handshake.thy ===== *)
theory Socks_Handshake
  imports Socks_Wire
begin

text \<open>
  The greeting and the server's method selection, from \<^verbatim>\<open>handshake.rs\<close>.
  \<open>greeting_bytes\<close> is the client's frame (RFC 1928, section 3), which the crate
  only parses.
\<close>

record Greeting =
  gr_methods :: bytes

definition Greeting_finish :: "Greeting \<Rightarrow> ProtocolError + Greeting" where
  "Greeting_finish g =
     (if gr_methods g = [] \<or> length (gr_methods g) > 255 then Inl (Unsupported 0x00) else Inr g)"

definition Greeting_parse :: "bytes \<Rightarrow> ProtocolError + Greeting" where
  "Greeting_parse b =
     and_then (read_u8 (Reader_new b)) (\<lambda>(ver, r).
     if ver \<noteq> VERSION then Inl (BadVersion ver) else
     and_then (read_u8 r) (\<lambda>(n, r).
     let nmethods = unat n in
     and_then (read_bytes nmethods r) (\<lambda>(methods, r).
       Greeting_finish \<lparr>gr_methods = methods\<rparr>)))"

definition Greeting_frame_len :: "bytes \<Rightarrow> ProtocolError + nat" where
  "Greeting_frame_len b =
     (if length b < GREETING_HEADER_LEN then Inl Truncated
      else let nmethods = unat (b ! 1) in Inr (GREETING_HEADER_LEN + nmethods))"

record MethodSelection =
  ms_method :: u8

definition MethodSelection_to_bytes :: "MethodSelection \<Rightarrow> bytes" where
  "MethodSelection_to_bytes m = [VERSION, ms_method m]"

definition MethodSelection_no_auth :: MethodSelection where
  "MethodSelection_no_auth = \<lparr>ms_method = method_NO_AUTH\<rparr>"

definition MethodSelection_user_pass :: MethodSelection where
  "MethodSelection_user_pass = \<lparr>ms_method = method_USER_PASS\<rparr>"

definition MethodSelection_no_acceptable_method :: MethodSelection where
  "MethodSelection_no_acceptable_method = \<lparr>ms_method = method_NO_ACCEPTABLE\<rparr>"

definition negotiate :: "Greeting \<Rightarrow> bool \<Rightarrow> bool \<Rightarrow> MethodSelection" where
  "negotiate greeting allow_user_pass allow_no_auth =
     (let offered = (\<lambda>m. m \<in> set (gr_methods greeting)) in
      if allow_no_auth \<and> offered method_NO_AUTH then MethodSelection_no_auth
      else if allow_user_pass \<and> offered method_USER_PASS then MethodSelection_user_pass
      else MethodSelection_no_acceptable_method)"

lemmas method_selection_defs =
  MethodSelection_to_bytes_def MethodSelection_no_auth_def MethodSelection_user_pass_def
  MethodSelection_no_acceptable_method_def

section \<open>The greeting as a frame\<close>

definition greeting_bytes :: "Greeting \<Rightarrow> bytes" where
  "greeting_bytes g = [VERSION, len_as_u8 (length (gr_methods g))] @ gr_methods g"

definition greeting_ok :: "Greeting \<Rightarrow> bool" where
  "greeting_ok g \<longleftrightarrow> gr_methods g \<noteq> [] \<and> length (gr_methods g) \<le> 255"

lemma Greeting_parse_eq:
  "Greeting_parse b =
    (case b of
       [] \<Rightarrow> Inl Truncated
     | ver # b1 \<Rightarrow> if ver \<noteq> VERSION then Inl (BadVersion ver) else
    (case b1 of
       [] \<Rightarrow> Inl Truncated
     | n # b2 \<Rightarrow> if length b2 < unat n then Inl Truncated
       else if n = 0 then Inl (Unsupported 0)
       else Inr \<lparr>gr_methods = take (unat n) b2\<rparr>))"
proof (cases b)
  case (Cons ver b1)
  show ?thesis
  proof (cases b1)
    case (Cons n b2)
    show ?thesis
      using \<open>b = ver # b1\<close> Cons u8_le_255 [of n]
      by (auto simp: Greeting_parse_def Greeting_finish_def wire_simps unat_eq_zero)
  qed (simp add: Cons Greeting_parse_def wire_simps)
qed (simp add: Greeting_parse_def wire_simps)

lemma greeting_roundtrip:
  "greeting_ok g \<Longrightarrow> Greeting_parse (greeting_bytes g @ tail) = Inr g"
  by (simp add: Greeting_parse_eq greeting_bytes_def greeting_ok_def len_as_u8_eq len_as_u8_eq_0_iff)

interpretation greeting_codec: sound_codec greeting_ok greeting_bytes Greeting_parse id
proof unfold_locales
  fix g k
  assume "greeting_ok g" and "k < length (greeting_bytes g)"
  then show "Greeting_parse (take k (greeting_bytes g)) = Inl Truncated"
    by (auto simp: Greeting_parse_eq greeting_bytes_def greeting_ok_def take_Cons' len_as_u8_eq)
next
  fix bs g
  assume "Greeting_parse bs = Inr g"
  then show "greeting_ok g \<and> (\<exists>tail. id bs = greeting_bytes g @ tail)"
    by (auto simp: Greeting_parse_eq greeting_bytes_def greeting_ok_def u8_le_255 unat_eq_zero
        not_less split: list.splits if_splits)
qed (simp_all add: greeting_roundtrip)

lemma Greeting_frame_len_greeting:
  "greeting_ok g \<Longrightarrow> Greeting_frame_len (greeting_bytes g @ tail) = Inr (length (greeting_bytes g))"
  by (simp add: Greeting_frame_len_def greeting_bytes_def greeting_ok_def len_as_u8_eq)

section \<open>Method selection\<close>

lemma negotiate_cases:
  "ms_method (negotiate g up na) =
    (if na \<and> method_NO_AUTH \<in> set (gr_methods g) then method_NO_AUTH
     else if up \<and> method_USER_PASS \<in> set (gr_methods g) then method_USER_PASS
     else method_NO_ACCEPTABLE)"
  by (simp add: negotiate_def method_selection_defs)

end
