(* ===== verification/Socks_Request.thy ===== *)
theory Socks_Request
  imports Socks_Address
begin

text \<open>
  Client requests, from \<^verbatim>\<open>request.rs\<close>: commands, the request frame, its parser (which
  also returns the number of bytes consumed) and serializer, and \<^verbatim>\<open>addr_len\<close>, which
  tells the transport how many bytes follow the fixed header.
\<close>

datatype Command = Connect | Bind | UdpAssociate

definition Command_from_u8 :: "u8 \<Rightarrow> ProtocolError + Command" where
  "Command_from_u8 v =
     (if v = command_CONNECT then Inr Connect
      else if v = command_BIND then Inr Bind
      else if v = command_UDP_ASSOCIATE then Inr UdpAssociate
      else Inl (Unsupported v))"

fun Command_to_u8 :: "Command \<Rightarrow> u8" where
  "Command_to_u8 Connect = command_CONNECT"
| "Command_to_u8 Bind = command_BIND"
| "Command_to_u8 UdpAssociate = command_UDP_ASSOCIATE"

record Request =
  rq_command :: Command
  rq_addr :: SocksAddr

text \<open>The match on the address type inside \<^verbatim>\<open>Request::parse\<close>.\<close>

definition Request_parse_host :: "u8 \<Rightarrow> Reader \<Rightarrow> ProtocolError + (Host \<times> Reader)" where
  "Request_parse_host atyp r =
     (if atyp = atyp_IPV4 then
        and_then (read_bytes 4 r) (\<lambda>(b, r). Inr (Ip (V4 (b ! 0) (b ! 1) (b ! 2) (b ! 3)), r))
      else if atyp = atyp_IPV6 then
        and_then (read_bytes 16 r) (\<lambda>(b, r). Inr (Ip (V6 b), r))
      else if atyp = atyp_DOMAIN then
        and_then (read_u8 r) (\<lambda>(l, r).
        let len = unat l in
        if len = 0 \<or> len > 255 then Inl (Unsupported atyp_DOMAIN) else
        and_then (read_bytes len r) (\<lambda>(name, r).
        and_then (ok_or (Unsupported atyp_DOMAIN) (from_utf8 name)) (\<lambda>name.
          Inr (Domain name, r))))
      else Inl (Unsupported atyp))"

definition Request_parse :: "bytes \<Rightarrow> ProtocolError + (Request \<times> nat)" where
  "Request_parse b =
     and_then (read_u8 (Reader_new b)) (\<lambda>(ver, r).
     if ver \<noteq> VERSION then Inl (BadVersion ver) else
     and_then (read_u8 r) (\<lambda>(cmd, r).
     and_then (Command_from_u8 cmd) (\<lambda>command.
     and_then (read_u8 r) (\<lambda>(rsv, r).
     and_then (read_u8 r) (\<lambda>(atyp, r).
     and_then (Request_parse_host atyp r) (\<lambda>(host, r).
     and_then (read_u16 r) (\<lambda>(port, r).
       Inr (\<lparr>rq_command = command, rq_addr = \<lparr>sa_host = host, sa_port = port\<rparr>\<rparr>, position r))))))))"

definition Request_addr_bytes :: "Request \<Rightarrow> bytes" where
  "Request_addr_bytes q = SocksAddr_to_vec (rq_addr q)"

definition Request_to_bytes :: "Request \<Rightarrow> bytes" where
  "Request_to_bytes q =
     (let addr = SocksAddr_to_vec (rq_addr q) in
      [VERSION, Command_to_u8 (rq_command q), 0x00, SocksAddr_atyp (rq_addr q)] @ addr)"

definition addr_len :: "u8 \<Rightarrow> u8 option \<Rightarrow> ProtocolError + nat" where
  "addr_len atyp domain_len =
     (if atyp = atyp_IPV4 then Inr (4 + 2)
      else if atyp = atyp_IPV6 then Inr (16 + 2)
      else if atyp = atyp_DOMAIN then
        let len = unat (case domain_len of None \<Rightarrow> 0 | Some l \<Rightarrow> l) in
        if len = 0 \<or> len > 255 then Inl (Unsupported atyp_DOMAIN) else Inr (1 + len + 2)
      else Inl (Unsupported atyp))"

definition request_header_len :: nat where
  "request_header_len = REQUEST_HEADER_LEN"

section \<open>Reading the host\<close>

lemma Command_roundtrip [simp]: "Command_from_u8 (Command_to_u8 c) = Inr c"
  by (cases c) (simp_all add: Command_from_u8_def)

lemma Command_from_u8_Inr: "Command_from_u8 v = Inr c \<longleftrightarrow> v = Command_to_u8 c"
  by (cases c) (auto simp: Command_from_u8_def)

fun host_nonempty :: "Host \<Rightarrow> bool" where
  "host_nonempty (Domain name) = (name \<noteq> [])"
| "host_nonempty _ = True"

lemma four_Suc: "Suc (Suc (Suc (Suc 0))) = 4"
  by simp

lemma drop4_Cons [simp]: "drop (4 + n) (a # b # c # d # xs) = drop n xs"
  by (simp add: eval_nat_numeral)

lemma take4_Cons [simp]: "take (4 + n) (a # b # c # d # xs) = a # b # c # d # take n xs"
  by (simp add: eval_nat_numeral)

lemma take4_split:
  assumes "4 \<le> length xs"
  shows "xs = take 4 xs ! 0 # take 4 xs ! 1 # take 4 xs ! 2 # take 4 xs ! 3 # drop 4 xs"
  using assms by (auto simp: eval_nat_numeral Suc_le_length_iff)

lemma Request_parse_host_domain:
  assumes "reader_ok r" "rd_pos r \<le> 1000"
  shows "Request_parse_host atyp_DOMAIN r =
    (case unread r of
       [] \<Rightarrow> Inl Truncated
     | l # b \<Rightarrow> if l = 0 then Inl (Unsupported atyp_DOMAIN)
       else if length b < unat l then Inl Truncated
       else if utf8_valid (take (unat l) b)
       then Inr (Domain (map char_of_byte (take (unat l) b)), advance (1 + unat l) r)
       else Inl (Unsupported atyp_DOMAIN))"
proof (cases "unread r")
  case (Cons l b)
  then show ?thesis
    using assms u8_le_255 [of l]
    by (simp add: Request_parse_host_def wire_simps from_utf8_def unat_eq_zero not_less)
qed (simp add: Request_parse_host_def wire_simps)

lemma Request_parse_host_ip:
  assumes "reader_ok r" "rd_pos r \<le> 1000"
  shows "Request_parse_host atyp_IPV4 r =
      (if 4 \<le> length (unread r)
       then Inr (Ip (V4 (unread r ! 0) (unread r ! 1) (unread r ! 2) (unread r ! 3)), advance 4 r)
       else Inl Truncated)"
    and "Request_parse_host atyp_IPV6 r =
      (if 16 \<le> length (unread r) then Inr (Ip (V6 (take 16 (unread r))), advance 16 r)
       else Inl Truncated)"
  using assms by (simp_all add: Request_parse_host_def wire_simps)

lemma Request_parse_host_other:
  "atyp \<notin> {atyp_IPV4, atyp_IPV6, atyp_DOMAIN} \<Longrightarrow> Request_parse_host atyp r = Inl (Unsupported atyp)"
  by (simp add: Request_parse_host_def)

lemmas Request_parse_host_simps = Request_parse_host_domain Request_parse_host_ip

lemma Request_parse_host_complete:
  assumes "reader_ok r" "rd_pos r \<le> 1000" "unread r = host_bytes h @ tail"
    and "host_ok h" "host_nonempty h"
  shows "Request_parse_host (host_atyp h) r = Inr (h, advance (length (host_bytes h)) r)"
  using assms
  by (cases h rule: host_atyp.cases)
    (auto simp: Request_parse_host_simps len_as_u8_eq len_as_u8_eq_0_iff four_Suc is_rust_string_def
      simp del: atyp_IPV4_def atyp_IPV6_def atyp_DOMAIN_def)

lemma Request_parse_host_prefix:
  assumes "reader_ok r" "rd_pos r \<le> 1000" "unread r = take k (host_bytes h)"
    and "k < length (host_bytes h)" "host_ok h" "host_nonempty h"
  shows "Request_parse_host (host_atyp h) r = Inl Truncated"
  using assms
  by (cases h rule: host_atyp.cases)
    (auto simp: Request_parse_host_simps len_as_u8_eq len_as_u8_eq_0_iff take_Cons'
      simp del: atyp_IPV4_def atyp_IPV6_def atyp_DOMAIN_def)

lemma Request_parse_host_sound:
  assumes "reader_ok r" "rd_pos r \<le> 1000" "Request_parse_host atyp r = Inr (h, r')"
  shows "atyp = host_atyp h \<and> host_ok h \<and> host_nonempty h \<and>
    unread r = host_bytes h @ unread r' \<and> r' = advance (length (host_bytes h)) r"
proof -
  consider "atyp = atyp_IPV4" | "atyp = atyp_IPV6" | "atyp = atyp_DOMAIN"
    using assms(3) Request_parse_host_other [of atyp r] by fastforce
  then show ?thesis
  proof cases
    case 1
    then show ?thesis
      using assms Request_parse_host_ip(1) [OF assms(1,2)] take4_split [of "unread r"]
      by (auto simp: four_Suc split: if_splits)
  next
    case 2
    then show ?thesis
      using assms Request_parse_host_ip(2) [OF assms(1,2)] by (auto split: if_splits)
  next
    case 3
    then show ?thesis
      using assms Request_parse_host_domain [OF assms(1,2)]
      by (auto simp: is_rust_string_def unat_eq_zero u8_le_255 not_less
          split: list.splits if_splits)
  qed
qed

section \<open>The request as a frame\<close>

definition request_ok :: "Request \<Rightarrow> bool" where
  "request_ok q \<longleftrightarrow> host_ok (sa_host (rq_addr q)) \<and> host_nonempty (sa_host (rq_addr q))"

definition header_canon :: "bytes \<Rightarrow> bytes" where
  "header_canon b = b[2 := 0]"

lemma header_canon_Cons [simp]: "header_canon (b0 # b1 # b2 # b) = b0 # b1 # 0 # b"
  by (simp add: header_canon_def numeral_2_eq_2)

lemma Request_to_bytes_eq:
  "request_ok q \<Longrightarrow> Request_to_bytes q =
     [VERSION, Command_to_u8 (rq_command q), 0, host_atyp (sa_host (rq_addr q))] @
     host_bytes (sa_host (rq_addr q)) @ port_bytes (sa_port (rq_addr q))"
  using SocksAddr_to_vec_eq [OF host_ok_ip_len]
  by (simp add: Request_to_bytes_def SocksAddr_atyp_def request_ok_def)

lemma Request_parse_header:
  "Request_parse (ver # cmd # rsv # atyp # b) =
    (if ver \<noteq> VERSION then Inl (BadVersion ver) else
     and_then (Command_from_u8 cmd) (\<lambda>command.
     and_then (Request_parse_host atyp (advance 4 (Reader_new (ver # cmd # rsv # atyp # b)))) (\<lambda>(host, r).
     and_then (read_u16 r) (\<lambda>(port, r).
       Inr (\<lparr>rq_command = command, rq_addr = \<lparr>sa_host = host, sa_port = port\<rparr>\<rparr>, position r)))))"
  by (cases "Command_from_u8 cmd") (simp_all add: Request_parse_def read_u8_unread four_Suc)

lemma Request_parse_short:
  "length b < 4 \<Longrightarrow> Request_parse b \<noteq> Inr x"
  by (auto simp: Request_parse_def read_u8_unread and_then_eq_Inr eval_nat_numeral less_Suc_eq
      length_Suc_conv split: list.splits if_splits)

lemma header_canon_eqE:
  assumes "header_canon b = [b0, b1, 0, b3] @ xs"
  obtains rsv where "b = [b0, b1, rsv, b3] @ xs"
proof -
  have "length b = 4 + length xs"
    using assms by (metis header_canon_def length_append length_list_update length_Cons list.size(3) four_Suc)
  then obtain c0 c1 c2 c3 ys where "b = c0 # c1 # c2 # c3 # ys"
    by (auto simp: eval_nat_numeral length_Suc_conv)
  with assms that show ?thesis by auto
qed

lemma Request_parse_any_rsv:
  assumes "request_ok q"
  shows "Request_parse ([VERSION, Command_to_u8 (rq_command q), rsv, host_atyp (sa_host (rq_addr q))] @
      host_bytes (sa_host (rq_addr q)) @ port_bytes (sa_port (rq_addr q)) @ tail) =
    Inr (q, length (Request_to_bytes q))"
proof -
  let ?h = "sa_host (rq_addr q)" and ?p = "sa_port (rq_addr q)"
  let ?b = "host_bytes ?h @ port_bytes ?p @ tail"
  let ?r = "advance 4 (Reader_new (VERSION # Command_to_u8 (rq_command q) # rsv # host_atyp ?h # ?b))"
  have "Request_parse_host (host_atyp ?h) ?r = Inr (?h, advance (length (host_bytes ?h)) ?r)"
    using assms by (intro Request_parse_host_complete [where tail = "port_bytes ?p @ tail"])
      (simp_all add: request_ok_def)
  then show ?thesis
    using assms by (simp add: Request_to_bytes_eq Request_parse_header wire_simps port_bytes_def
        del: VERSION_def)
qed

lemma Request_parse_complete:
  "request_ok q \<Longrightarrow> Request_parse (Request_to_bytes q @ tail) = Inr (q, length (Request_to_bytes q))"
  using Request_parse_any_rsv [of q 0 tail] by (simp add: Request_to_bytes_eq)

lemma Request_parse_prefix:
  assumes "request_ok q" "k < length (Request_to_bytes q)"
  shows "Request_parse (take k (Request_to_bytes q)) = Inl Truncated"
proof (cases "k < 4")
  case True
  then show ?thesis
    using assms by (auto simp: Request_to_bytes_eq Request_parse_def read_u8_unread take_Cons')
next
  case False
  let ?h = "sa_host (rq_addr q)" and ?p = "port_bytes (sa_port (rq_addr q))"
  obtain j where k4: "k = 4 + j" using False by (metis le_add_diff_inverse not_less)
  let ?b = "take j (host_bytes ?h @ ?p)"
  let ?r = "advance 4 (Reader_new (VERSION # Command_to_u8 (rq_command q) # 0 # host_atyp ?h # ?b))"
  have k: "take k (Request_to_bytes q) =
      VERSION # Command_to_u8 (rq_command q) # 0 # host_atyp ?h # ?b"
    and j: "j < length (host_bytes ?h) + 2"
    using assms by (simp_all add: Request_to_bytes_eq k4)
  show ?thesis
  proof (cases "j < length (host_bytes ?h)")
    case True
    then have "Request_parse_host (host_atyp ?h) ?r = Inl Truncated"
      using assms by (intro Request_parse_host_prefix [where k = j]) (simp_all add: request_ok_def)
    then show ?thesis by (simp add: k Request_parse_header del: VERSION_def)
  next
    case False
    then have "Request_parse_host (host_atyp ?h) ?r = Inr (?h, advance (length (host_bytes ?h)) ?r)"
      using assms by (intro Request_parse_host_complete [where tail = "take (j - length (host_bytes ?h)) ?p"])
        (simp_all add: request_ok_def)
    moreover have "read_u16 (advance (length (host_bytes ?h)) ?r) = Inl Truncated"
      using False j by (auto simp: wire_simps port_bytes_def take_Cons')
    ultimately show ?thesis by (simp add: k Request_parse_header del: VERSION_def)
  qed
qed

lemma Request_parse_sound:
  assumes "Request_parse b = Inr (q, n)"
  shows "request_ok q \<and> n = length (Request_to_bytes q) \<and>
    (\<exists>tail. header_canon b = Request_to_bytes q @ tail)"
proof -
  have "\<not> length b < 4" using assms Request_parse_short by blast
  then obtain ver cmd rsv atyp b4 where b: "b = ver # cmd # rsv # atyp # b4"
    by (auto simp: eval_nat_numeral not_less Suc_le_length_iff)
  let ?r = "advance 4 (Reader_new b)"
  from assms obtain c h r' p r'' where ver: "ver = VERSION" and c: "Command_from_u8 cmd = Inr c"
    and h: "Request_parse_host atyp ?r = Inr (h, r')" and p: "read_u16 r' = Inr (p, r'')"
    and q: "q = \<lparr>rq_command = c, rq_addr = \<lparr>sa_host = h, sa_port = p\<rparr>\<rparr>" and n: "n = position r''"
    by (auto simp: b Request_parse_header and_then_eq_Inr split: if_splits)
  have host: "atyp = host_atyp h \<and> host_ok h \<and> host_nonempty h \<and>
      unread ?r = host_bytes h @ unread r' \<and> r' = advance (length (host_bytes h)) ?r"
    using h by (intro Request_parse_host_sound) (simp_all add: b)
  obtain hi lo tail where port: "unread r' = hi # lo # tail" "p = join_u16 hi lo" "r'' = advance 2 r'"
    using read_u16_Inr [OF p] by blast
  have ok: "request_ok q" using host by (simp add: q request_ok_def)
  have "Request_to_bytes q = [VERSION, cmd, 0, atyp] @ host_bytes h @ [hi, lo]"
    using Request_to_bytes_eq [OF ok] host c by (simp add: q port Command_from_u8_Inr)
  then show ?thesis
    using ok host ver n port(1,3) by (auto simp: b)
qed

interpretation request_codec: sound_codec request_ok Request_to_bytes
  "\<lambda>b. map_ok fst (Request_parse b)" header_canon
proof unfold_locales
  fix bs q
  assume "map_ok fst (Request_parse bs) = Inr q"
  then obtain n where "Request_parse bs = Inr (q, n)"
    by (cases "Request_parse bs") auto
  from Request_parse_sound [OF this]
  show "request_ok q \<and> (\<exists>tail. header_canon bs = Request_to_bytes q @ tail)" by blast
next
  fix q bs tail
  assume q: "request_ok q" and "header_canon bs = Request_to_bytes q @ tail"
  then obtain rsv where "bs = [VERSION, Command_to_u8 (rq_command q), rsv, host_atyp (sa_host (rq_addr q))] @
      host_bytes (sa_host (rq_addr q)) @ port_bytes (sa_port (rq_addr q)) @ tail"
    by (auto simp: Request_to_bytes_eq elim: header_canon_eqE [unfolded append.simps])
  then show "map_ok fst (Request_parse bs) = Inr q"
    by (simp only: Request_parse_any_rsv [OF q] map_ok_simps fst_conv)
qed (simp_all add: Request_parse_complete Request_parse_prefix)

section \<open>Properties\<close>

text \<open>
  C7. The request parser accepts exactly the frames the serializer produces: it returns a
  request and a length if and only if the request is well formed (a non-empty UTF-8 domain of at most 255
  bytes, or an IP address), the length is that of its encoding, and the buffer starts with
  that encoding, the reserved third byte being ignored.
\<close>

theorem request_parse_iff:
  "Request_parse b = Inr (q, n) \<longleftrightarrow>
     request_ok q \<and> n = length (Request_to_bytes q) \<and>
     (\<exists>tail. header_canon b = Request_to_bytes q @ tail)"
proof
  assume r: "request_ok q \<and> n = length (Request_to_bytes q) \<and>
     (\<exists>tail. header_canon b = Request_to_bytes q @ tail)"
  then have "map_ok fst (Request_parse b) = Inr q" by (simp add: request_codec.decode_iff)
  then obtain n' where n': "Request_parse b = Inr (q, n')" by (cases "Request_parse b") auto
  with r Request_parse_sound [OF n'] show "Request_parse b = Inr (q, n)" by simp
qed (rule Request_parse_sound)

lemma addr_len_host:
  assumes "host_ok h" "host_nonempty h"
  shows "addr_len (host_atyp h) (Some (hd (host_bytes h))) = Inr (length (host_bytes h) + 2)"
  using assms u8_le_255 [of "hd (host_bytes h)"]
  by (cases h rule: host_atyp.cases) (auto simp: addr_len_def len_as_u8_eq)

lemma addr_len_request:
  assumes "request_ok q"
  shows "addr_len (Request_to_bytes q ! 3) (Some (Request_to_bytes q ! 4)) = Inr (length (Request_to_bytes q) - 4)"
    and "4 \<le> length (Request_to_bytes q)"
proof -
  let ?h = "sa_host (rq_addr q)"
  have "host_bytes ?h \<noteq> []" using assms by (cases ?h rule: host_atyp.cases) (auto simp: request_ok_def)
  then have "Request_to_bytes q ! 3 = host_atyp ?h" "Request_to_bytes q ! 4 = hd (host_bytes ?h)"
    using assms by (simp_all add: Request_to_bytes_eq nth_append hd_conv_nth)
  then show "addr_len (Request_to_bytes q ! 3) (Some (Request_to_bytes q ! 4)) = Inr (length (Request_to_bytes q) - 4)"
    using assms addr_len_host [of ?h] by (simp add: Request_to_bytes_eq request_ok_def)
qed (use assms in \<open>simp add: Request_to_bytes_eq\<close>)

lemma addr_len_None: "atyp \<noteq> atyp_DOMAIN \<Longrightarrow> addr_len atyp None = addr_len atyp (Some l)"
  by (simp add: addr_len_def)

text \<open>
  A server that reads the four header bytes, then (for a domain) the length byte, and
  then asks \<^verbatim>\<open>addr_len\<close> how much address is left, reads exactly one request: header plus
  address length is the length of the request's encoding.
\<close>

theorem addr_len_frames_request:
  assumes "request_ok q"
  shows "map_ok (\<lambda>n. request_header_len + n)
      (addr_len (Request_to_bytes q ! 3) (Some (Request_to_bytes q ! 4))) =
    Inr (length (Request_to_bytes q))"
  using addr_len_request [OF assms] by (simp add: request_header_len_def)

theorem addr_len_frames_request_witness:
  "map_ok (\<lambda>n. request_header_len + n)
      (addr_len (Request_to_bytes \<lparr>rq_command = Connect, rq_addr = \<lparr>sa_host = Domain ''ab'', sa_port = 80\<rparr>\<rparr> ! 3)
        (Some (Request_to_bytes \<lparr>rq_command = Connect, rq_addr = \<lparr>sa_host = Domain ''ab'', sa_port = 80\<rparr>\<rparr> ! 4))) =
    Inr (length (Request_to_bytes \<lparr>rq_command = Connect, rq_addr = \<lparr>sa_host = Domain ''ab'', sa_port = 80\<rparr>\<rparr>))"
  by (rule addr_len_frames_request) (simp add: request_ok_def is_rust_string_ascii)

end
