(* ===== verification/Socks_Reply.thy ===== *)
theory Socks_Reply
  imports Socks_Request
begin

text \<open>
  Server replies, from \<^verbatim>\<open>reply.rs\<close>. The parser differs from the request's in two
  ways: any code is accepted, and a domain of length zero is too.
\<close>

record Reply =
  rp_code :: u8
  rp_bind_addr :: SocksAddr

definition Reply_to_bytes :: "Reply \<Rightarrow> bytes" where
  "Reply_to_bytes p =
     (let addr = SocksAddr_to_vec (rp_bind_addr p) in
      [VERSION, rp_code p, 0x00, SocksAddr_atyp (rp_bind_addr p)] @ addr)"

text \<open>The match on the address type inside \<^verbatim>\<open>Reply::parse\<close>.\<close>

definition Reply_parse_host :: "u8 \<Rightarrow> Reader \<Rightarrow> ProtocolError + (Host \<times> Reader)" where
  "Reply_parse_host atyp r =
     (if atyp = atyp_IPV4 then
        and_then (read_bytes 4 r) (\<lambda>(b, r). Inr (Ip (V4 (b ! 0) (b ! 1) (b ! 2) (b ! 3)), r))
      else if atyp = atyp_IPV6 then
        and_then (read_bytes 16 r) (\<lambda>(b, r). Inr (Ip (V6 b), r))
      else if atyp = atyp_DOMAIN then
        and_then (read_u8 r) (\<lambda>(l, r).
        let len = unat l in
        and_then (read_bytes len r) (\<lambda>(name, r).
        and_then (ok_or (Unsupported atyp) (from_utf8 name)) (\<lambda>name.
          Inr (Domain name, r))))
      else Inl (Unsupported atyp))"

definition Reply_parse :: "bytes \<Rightarrow> ProtocolError + Reply" where
  "Reply_parse b =
     and_then (read_u8 (Reader_new b)) (\<lambda>(ver, r).
     if ver \<noteq> VERSION then Inl (BadVersion ver) else
     and_then (read_u8 r) (\<lambda>(code, r).
     and_then (read_u8 r) (\<lambda>(rsv, r).
     and_then (read_u8 r) (\<lambda>(atyp, r).
     and_then (Reply_parse_host atyp r) (\<lambda>(host, r).
     and_then (read_u16 r) (\<lambda>(port, r).
       Inr \<lparr>rp_code = code, rp_bind_addr = \<lparr>sa_host = host, sa_port = port\<rparr>\<rparr>))))))"

definition simple_reply :: "u8 \<Rightarrow> Reply" where
  "simple_reply code =
     \<lparr>rp_code = code, rp_bind_addr = \<lparr>sa_host = Ip (V4 0 0 0 0), sa_port = 0\<rparr>\<rparr>"

definition reply_success :: Reply where
  "reply_success = simple_reply reply_SUCCESS"

section \<open>Reading the host\<close>

lemma Reply_parse_host_eq:
  assumes "reader_ok r" "rd_pos r \<le> 1000"
  shows "Reply_parse_host atyp r =
    (case unread r of
       l # b \<Rightarrow> if atyp = atyp_DOMAIN \<and> l = 0 then Inr (Domain [], advance 1 r)
                else Request_parse_host atyp r
     | [] \<Rightarrow> Request_parse_host atyp r)"
proof (cases "unread r")
  case (Cons l b)
  then show ?thesis
    using assms u8_le_255 [of l]
    by (auto simp: Reply_parse_host_def Request_parse_host_def wire_simps from_utf8_def unat_eq_zero)
qed (simp add: Reply_parse_host_def Request_parse_host_def wire_simps assms)

definition reply_ok :: "Reply \<Rightarrow> bool" where
  "reply_ok p \<longleftrightarrow> host_ok (sa_host (rp_bind_addr p))"

lemma empty_domain: "\<not> host_nonempty h \<longleftrightarrow> h = Domain []"
  by (cases h rule: host_atyp.cases) auto

lemma host_bytes_nonempty: "host_ok h \<Longrightarrow> host_bytes h \<noteq> []"
  by (cases h rule: host_atyp.cases) auto

lemma Reply_parse_host_complete:
  assumes r: "reader_ok r" "rd_pos r \<le> 1000" and b: "unread r = host_bytes h @ tail" and h: "host_ok h"
  shows "Reply_parse_host (host_atyp h) r = Inr (h, advance (length (host_bytes h)) r)"
proof (cases "host_nonempty h")
  case True
  then have "Request_parse_host (host_atyp h) r = Inr (h, advance (length (host_bytes h)) r)"
    using assms by (intro Request_parse_host_complete)
  moreover have "\<not> (host_atyp h = atyp_DOMAIN \<and> hd (host_bytes h) = 0)"
    using True h by (cases h rule: host_atyp.cases) (auto simp: len_as_u8_eq_0_iff)
  ultimately show ?thesis
    using b host_bytes_nonempty [OF h]
    by (cases "host_bytes h") (auto simp: Reply_parse_host_eq [OF r])
next
  case False
  then show ?thesis using b by (auto simp: empty_domain Reply_parse_host_eq [OF r] len_as_u8_def)
qed

lemma Reply_parse_host_prefix:
  assumes r: "reader_ok r" "rd_pos r \<le> 1000" and b: "unread r = take k (host_bytes h)"
    and k: "k < length (host_bytes h)" and h: "host_ok h"
  shows "Reply_parse_host (host_atyp h) r = Inl Truncated"
proof (cases "host_nonempty h")
  case True
  then have "Request_parse_host (host_atyp h) r = Inl Truncated"
    using assms by (intro Request_parse_host_prefix)
  moreover have "\<not> (host_atyp h = atyp_DOMAIN \<and> hd (host_bytes h) = 0)"
    using True h by (cases h rule: host_atyp.cases) (auto simp: len_as_u8_eq_0_iff)
  ultimately show ?thesis
    using b by (cases k; cases "host_bytes h") (auto simp: Reply_parse_host_eq [OF r])
next
  case False
  then show ?thesis using b k
    by (auto simp: empty_domain Reply_parse_host_def read_u8_unread)
qed

lemma Reply_parse_host_sound:
  assumes "reader_ok r" "rd_pos r \<le> 1000" "Reply_parse_host atyp r = Inr (h, r')"
  shows "atyp = host_atyp h \<and> host_ok h \<and>
    unread r = host_bytes h @ unread r' \<and> r' = advance (length (host_bytes h)) r"
proof -
  consider "Request_parse_host atyp r = Inr (h, r')"
    | b where "unread r = 0 # b" "atyp = atyp_DOMAIN" "h = Domain []" "r' = advance 1 r"
    using assms by (auto simp: Reply_parse_host_eq split: list.splits if_splits)
  then show ?thesis
  proof cases
    case 1
    then show ?thesis using Request_parse_host_sound [OF assms(1,2)] by blast
  next
    case 2
    then show ?thesis by (simp add: is_rust_string_def as_bytes_def len_as_u8_def)
  qed
qed

section \<open>The reply as a frame\<close>

lemma Reply_to_bytes_eq:
  "reply_ok p \<Longrightarrow> Reply_to_bytes p =
     [VERSION, rp_code p, 0, host_atyp (sa_host (rp_bind_addr p))] @
     host_bytes (sa_host (rp_bind_addr p)) @ port_bytes (sa_port (rp_bind_addr p))"
  using SocksAddr_to_vec_eq [OF host_ok_ip_len]
  by (simp add: Reply_to_bytes_def SocksAddr_atyp_def reply_ok_def)

lemma Reply_parse_header:
  "Reply_parse (ver # code # rsv # atyp # b) =
    (if ver \<noteq> VERSION then Inl (BadVersion ver) else
     and_then (Reply_parse_host atyp (advance 4 (Reader_new (ver # code # rsv # atyp # b)))) (\<lambda>(host, r).
     and_then (read_u16 r) (\<lambda>(port, r).
       Inr \<lparr>rp_code = code, rp_bind_addr = \<lparr>sa_host = host, sa_port = port\<rparr>\<rparr>)))"
  by (simp add: Reply_parse_def read_u8_unread four_Suc)

lemma Reply_parse_short: "length b < 4 \<Longrightarrow> Reply_parse b \<noteq> Inr x"
  by (auto simp: Reply_parse_def read_u8_unread and_then_eq_Inr eval_nat_numeral less_Suc_eq
      length_Suc_conv split: list.splits if_splits)

lemma Reply_parse_any_rsv:
  assumes "reply_ok p"
  shows "Reply_parse ([VERSION, rp_code p, rsv, host_atyp (sa_host (rp_bind_addr p))] @
      host_bytes (sa_host (rp_bind_addr p)) @ port_bytes (sa_port (rp_bind_addr p)) @ tail) = Inr p"
proof -
  let ?h = "sa_host (rp_bind_addr p)" and ?p = "sa_port (rp_bind_addr p)"
  let ?b = "host_bytes ?h @ port_bytes ?p @ tail"
  let ?r = "advance 4 (Reader_new (VERSION # rp_code p # rsv # host_atyp ?h # ?b))"
  have "Reply_parse_host (host_atyp ?h) ?r = Inr (?h, advance (length (host_bytes ?h)) ?r)"
    using assms by (intro Reply_parse_host_complete [where tail = "port_bytes ?p @ tail"])
      (simp_all add: reply_ok_def)
  then show ?thesis by (simp add: Reply_parse_header wire_simps port_bytes_def del: VERSION_def)
qed

lemma Reply_parse_complete: "reply_ok p \<Longrightarrow> Reply_parse (Reply_to_bytes p @ tail) = Inr p"
  using Reply_parse_any_rsv [of p 0 tail] by (simp add: Reply_to_bytes_eq)

lemma Reply_parse_prefix:
  assumes "reply_ok p" "k < length (Reply_to_bytes p)"
  shows "Reply_parse (take k (Reply_to_bytes p)) = Inl Truncated"
proof (cases "k < 4")
  case True
  then show ?thesis
    using assms by (auto simp: Reply_to_bytes_eq Reply_parse_def read_u8_unread take_Cons')
next
  case False
  let ?h = "sa_host (rp_bind_addr p)" and ?p = "port_bytes (sa_port (rp_bind_addr p))"
  obtain j where k4: "k = 4 + j" using False by (metis le_add_diff_inverse not_less)
  let ?b = "take j (host_bytes ?h @ ?p)"
  let ?r = "advance 4 (Reader_new (VERSION # rp_code p # 0 # host_atyp ?h # ?b))"
  have k: "take k (Reply_to_bytes p) = VERSION # rp_code p # 0 # host_atyp ?h # ?b"
    and j: "j < length (host_bytes ?h) + 2"
    using assms by (simp_all add: Reply_to_bytes_eq k4)
  show ?thesis
  proof (cases "j < length (host_bytes ?h)")
    case True
    then have "Reply_parse_host (host_atyp ?h) ?r = Inl Truncated"
      using assms by (intro Reply_parse_host_prefix [where k = j]) (simp_all add: reply_ok_def)
    then show ?thesis by (simp add: k Reply_parse_header del: VERSION_def)
  next
    case False
    then have "Reply_parse_host (host_atyp ?h) ?r = Inr (?h, advance (length (host_bytes ?h)) ?r)"
      using assms by (intro Reply_parse_host_complete [where tail = "take (j - length (host_bytes ?h)) ?p"])
        (simp_all add: reply_ok_def)
    moreover have "read_u16 (advance (length (host_bytes ?h)) ?r) = Inl Truncated"
      using False j by (auto simp: wire_simps port_bytes_def take_Cons')
    ultimately show ?thesis by (simp add: k Reply_parse_header del: VERSION_def)
  qed
qed

lemma Reply_parse_sound:
  assumes "Reply_parse b = Inr p"
  shows "reply_ok p \<and> (\<exists>tail. header_canon b = Reply_to_bytes p @ tail)"
proof -
  have "\<not> length b < 4" using assms Reply_parse_short by blast
  then obtain ver code rsv atyp b4 where b: "b = ver # code # rsv # atyp # b4"
    by (auto simp: eval_nat_numeral not_less Suc_le_length_iff)
  let ?r = "advance 4 (Reader_new b)"
  from assms obtain h r' w r'' where ver: "ver = VERSION"
    and h: "Reply_parse_host atyp ?r = Inr (h, r')" and w: "read_u16 r' = Inr (w, r'')"
    and p: "p = \<lparr>rp_code = code, rp_bind_addr = \<lparr>sa_host = h, sa_port = w\<rparr>\<rparr>"
    by (auto simp: b Reply_parse_header and_then_eq_Inr split: if_splits)
  have host: "atyp = host_atyp h \<and> host_ok h \<and>
      unread ?r = host_bytes h @ unread r' \<and> r' = advance (length (host_bytes h)) ?r"
    using h by (intro Reply_parse_host_sound) (simp_all add: b)
  obtain hi lo tail where port: "unread r' = hi # lo # tail" "w = join_u16 hi lo"
    using read_u16_Inr [OF w] by blast
  have ok: "reply_ok p" using host by (simp add: p reply_ok_def)
  have "Reply_to_bytes p = [VERSION, code, 0, atyp] @ host_bytes h @ [hi, lo]"
    using Reply_to_bytes_eq [OF ok] host by (simp add: p port)
  then show ?thesis using ok host ver port(1) by (auto simp: b)
qed

interpretation reply_codec: sound_codec reply_ok Reply_to_bytes Reply_parse header_canon
proof unfold_locales
  fix p bs tail
  assume p: "reply_ok p" and "header_canon bs = Reply_to_bytes p @ tail"
  then obtain rsv where "bs = [VERSION, rp_code p, rsv, host_atyp (sa_host (rp_bind_addr p))] @
      host_bytes (sa_host (rp_bind_addr p)) @ port_bytes (sa_port (rp_bind_addr p)) @ tail"
    by (auto simp: Reply_to_bytes_eq elim: header_canon_eqE [unfolded append.simps])
  then show "Reply_parse bs = Inr p" by (simp only: Reply_parse_any_rsv [OF p])
qed (use Reply_parse_sound in \<open>auto simp: Reply_parse_complete Reply_parse_prefix\<close>)

lemma simple_reply_bytes:
  "Reply_to_bytes (simple_reply code) = [VERSION, code, 0, atyp_IPV4, 0, 0, 0, 0, 0, 0]"
proof -
  have ok: "reply_ok (simple_reply code)" by (simp add: reply_ok_def simple_reply_def)
  show ?thesis unfolding Reply_to_bytes_eq [OF ok] by (simp add: simple_reply_def port_bytes_def)
qed

section \<open>Properties\<close>

text \<open>
  C16. The reply parser accepts exactly the frames the reply serializer produces, for every
  reply code, any reserved byte and every address whose domain, if it has one, is UTF-8 of at most 255 bytes; unlike a
  request, a reply may carry an empty domain.
\<close>

theorem reply_parse_iff:
  "Reply_parse b = Inr p \<longleftrightarrow>
     host_ok (sa_host (rp_bind_addr p)) \<and> (\<exists>tail. header_canon b = Reply_to_bytes p @ tail)"
  using reply_codec.decode_iff [of b p] by (simp add: reply_ok_def)

end
