(* ===== verification/Net_World.thy ===== *)
theory Net_World
  imports Complex_Main Socks_Auth Socks_Handshake Socks_Reply
begin

text \<open>
  The outside of the gateway and the node agent. Sockets (tokio), the HTTP client
  (reqwest) and the metrics recorder are other crates: an environment decides the outcome
  of every call, as a function of everything the session did before. The state of a session is
  the trace of its calls with their outcomes, so what a theorem says of a session is said of its
  trace. The only assumptions made on an environment are named below: \<open>reads_exact\<close>
  (\<^verbatim>\<open>read_exact\<close> fills the buffer), and, for the theorems on honest peers, \<open>delivers\<close>
  and \<open>accepts\<close>.
\<close>

section \<open>Calls and outcomes\<close>

text \<open>The outcome of \<^verbatim>\<open>tokio::time::timeout\<close> around a fallible call, when it is not a success.\<close>

datatype 'e timed = Elapsed | Done 'e

datatype IoError = ConnectionRefused | UnexpectedEof | OtherIoError string

type_synonym NetFail = "IoError timed"
type_synonym conn = nat

record RegisterPayload =
  rp_node_id :: string
  rp_address :: string
  rp_max_connections :: u32
  rp_bandwidth_limit :: u64

record HeartbeatPayload =
  hp_active_connections :: u32
  hp_bytes_up :: u64
  hp_bytes_down :: u64
  hp_latency_ms :: u32
  hp_available_bandwidth :: u64

record SelectResponse =
  sr_id :: string
  sr_address :: string

datatype HttpPayload = NoPayload | RegisterJson RegisterPayload | HeartbeatJson HeartbeatPayload

record HttpCall =
  hc_url :: string
  hc_bearer :: "string option"
  hc_payload :: HttpPayload

text \<open>A response: status, body text, and the body decoded as a node (or the decoder's error).\<close>

record HttpReply =
  hr_status :: nat
  hr_text :: string
  hr_json :: "string + SelectResponse"

datatype MetricCall = CounterAdd string u64 | GaugeAdd string rat

datatype Event =
  ReadExact conn nat "NetFail + bytes"
| WriteAll conn bytes "NetFail + unit"
| ConnectTo string "NetFail + conn"
| CopyBidirectional conn conn "NetFail + (u64 \<times> u64)"
| Post HttpCall "string timed + HttpReply"
| Metric MetricCall

type_synonym trace = "Event list"

record Env =
  env_read :: "trace \<Rightarrow> conn \<Rightarrow> Duration \<Rightarrow> nat \<Rightarrow> NetFail + bytes"
  env_write :: "trace \<Rightarrow> conn \<Rightarrow> Duration \<Rightarrow> bytes \<Rightarrow> NetFail + unit"
  env_connect :: "trace \<Rightarrow> Duration \<Rightarrow> string \<Rightarrow> NetFail + conn"
  env_copy :: "trace \<Rightarrow> Duration \<Rightarrow> conn \<Rightarrow> conn \<Rightarrow> NetFail + (u64 \<times> u64)"
  env_post_within :: "trace \<Rightarrow> Duration \<Rightarrow> HttpCall \<Rightarrow> string timed + HttpReply"
  env_post :: "trace \<Rightarrow> HttpCall \<Rightarrow> string + HttpReply"
  env_io_string :: "IoError \<Rightarrow> string"
  env_status_string :: "nat \<Rightarrow> string"

type_synonym ('e, 'a) session = "(trace, 'e, 'a) io"

text \<open>\<^verbatim>\<open>timeout(d, stream.read_exact(buf))\<close> and its companions.\<close>

definition read_exact :: "Env \<Rightarrow> conn \<Rightarrow> Duration \<Rightarrow> nat \<Rightarrow> (NetFail, bytes) session" where
  "read_exact env c d n tr = (let r = env_read env tr c d n in (r, tr @ [ReadExact c n r]))"

definition write_all :: "Env \<Rightarrow> conn \<Rightarrow> Duration \<Rightarrow> bytes \<Rightarrow> (NetFail, unit) session" where
  "write_all env c d bs tr = (let r = env_write env tr c d bs in (r, tr @ [WriteAll c bs r]))"

definition connect_to :: "Env \<Rightarrow> Duration \<Rightarrow> string \<Rightarrow> (NetFail, conn) session" where
  "connect_to env d addr tr = (let r = env_connect env tr d addr in (r, tr @ [ConnectTo addr r]))"

definition copy_bidirectional :: "Env \<Rightarrow> Duration \<Rightarrow> conn \<Rightarrow> conn \<Rightarrow> (NetFail, u64 \<times> u64) session" where
  "copy_bidirectional env d a b tr = (let r = env_copy env tr d a b in (r, tr @ [CopyBidirectional a b r]))"

text \<open>An HTTP call, within a deadline of the caller's, or with the client's own timeout only.\<close>

definition post_within :: "Env \<Rightarrow> Duration \<Rightarrow> HttpCall \<Rightarrow> (string timed, HttpReply) session" where
  "post_within env d call tr = (let r = env_post_within env tr d call in (r, tr @ [Post call r]))"

definition post :: "Env \<Rightarrow> HttpCall \<Rightarrow> (string, HttpReply) session" where
  "post env call tr = (let r = env_post env tr call in (r, tr @ [Post call (map_err Done r)]))"

definition emit :: "MetricCall list \<Rightarrow> ('e, unit) session" where
  "emit ms = io_modify (\<lambda>tr. tr @ map Metric ms)"

text \<open>\<^verbatim>\<open>{:#04x}\<close> on a byte, and the texts of protocol errors.\<close>

definition hex04 :: "u8 \<Rightarrow> string" where
  "hex04 b = ''0x'' @ (if unat b < 16 then ''0'' else []) @ to_hex (unat b)"

fun ProtocolError_to_string :: "ProtocolError \<Rightarrow> string" where
  "ProtocolError_to_string (BadVersion v) = ''unexpected version byte '' @ hex04 v"
| "ProtocolError_to_string (Unsupported c) = ''unsupported code '' @ hex04 c"
| "ProtocolError_to_string Truncated = ''message is truncated''"
| "ProtocolError_to_string InvalidCredentialLength = ''invalid credential length''"
| "ProtocolError_to_string NoAcceptableMethod = ''no acceptable authentication method''"

section \<open>Reading a trace\<close>

fun received_by :: "conn \<Rightarrow> Event \<Rightarrow> bytes" where
  "received_by c (ReadExact c' n (Inr bs)) = (if c' = c then bs else [])"
| "received_by c _ = []"

fun sent_by :: "conn \<Rightarrow> Event \<Rightarrow> bytes" where
  "sent_by c (WriteAll c' bs (Inr ())) = (if c' = c then bs else [])"
| "sent_by c _ = []"

fun attempted_by :: "conn \<Rightarrow> Event \<Rightarrow> bytes list" where
  "attempted_by c (WriteAll c' bs r) = (if c' = c then [bs] else [])"
| "attempted_by c _ = []"

definition received :: "conn \<Rightarrow> trace \<Rightarrow> bytes" where
  "received c tr = concat (map (received_by c) tr)"

definition sent :: "conn \<Rightarrow> trace \<Rightarrow> bytes" where
  "sent c tr = concat (map (sent_by c) tr)"

text \<open>The messages a session tried to write, whether or not the write succeeded.\<close>

definition attempted :: "conn \<Rightarrow> trace \<Rightarrow> bytes list" where
  "attempted c tr = concat (map (attempted_by c) tr)"

lemma attempted_simps [simp]:
  "attempted c [] = []" "attempted c (e # tr) = attempted_by c e @ attempted c tr"
  "attempted c (tr @ tr') = attempted c tr @ attempted c tr'"
  by (simp_all add: attempted_def)

lemma received_simps [simp]:
  "received c [] = []" "received c (e # tr) = received_by c e @ received c tr"
  "received c (tr @ tr') = received c tr @ received c tr'"
  by (simp_all add: received_def)

lemma sent_simps [simp]:
  "sent c [] = []" "sent c (e # tr) = sent_by c e @ sent c tr" "sent c (tr @ tr') = sent c tr @ sent c tr'"
  by (simp_all add: sent_def)

section \<open>What is assumed of an environment\<close>

definition reads_exact :: "Env \<Rightarrow> bool" where
  "reads_exact env \<longleftrightarrow> (\<forall>tr c d n bs. env_read env tr c d n = Inr bs \<longrightarrow> length bs = n)"

text \<open>The peer of \<open>c\<close> sends \<open>inbox\<close>, in time; the peer of \<open>c\<close> takes whatever is written.\<close>

definition pending :: "conn \<Rightarrow> bytes \<Rightarrow> trace \<Rightarrow> bytes" where
  "pending c inbox tr = drop (length (received c tr)) inbox"

definition delivers :: "Env \<Rightarrow> conn \<Rightarrow> bytes \<Rightarrow> bool" where
  "delivers env c inbox \<longleftrightarrow> (\<forall>tr d n. n \<le> length (pending c inbox tr) \<longrightarrow>
     env_read env tr c d n = Inr (take n (pending c inbox tr)))"

definition accepts :: "Env \<Rightarrow> conn \<Rightarrow> bool" where
  "accepts env c \<longleftrightarrow> (\<forall>tr d bs. env_write env tr c d bs = Inr ())"

lemma pending_append:
  "pending c inbox tr = received c evs @ rest \<Longrightarrow> pending c inbox (tr @ evs) = rest"
  by (simp add: pending_def flip: drop_drop) (metis append_eq_conv_conj drop_drop add.commute)

lemma pending_other [simp]: "received c evs = [] \<Longrightarrow> pending c inbox (tr @ evs) = pending c inbox tr"
  by (simp add: pending_def)

lemma read_exact_delivered:
  assumes "delivers env c inbox" "pending c inbox tr = bs @ rest" "length bs = n"
  shows "read_exact env c d n tr = (Inr bs, tr @ [ReadExact c n (Inr bs)])"
  using assms by (simp add: read_exact_def delivers_def Let_def)

section \<open>Sessions that only do certain calls\<close>

definition emits :: "(Event \<Rightarrow> bool) \<Rightarrow> ('e, 'a) session \<Rightarrow> bool" where
  "emits P m \<longleftrightarrow> (\<forall>tr. \<exists>evs. snd (m tr) = tr @ evs \<and> (\<forall>e \<in> set evs. P e))"

lemma emitsD:
  assumes "emits P m" "m tr = (r, tr')"
  obtains evs where "tr' = tr @ evs" "\<forall>e \<in> set evs. P e"
  using assms unfolding emits_def by (metis snd_conv)

lemma emits_bind_Inr:
  assumes "emits P m" "\<And>x tr tr'. m tr = (Inr x, tr') \<Longrightarrow> emits P (f x)"
  shows "emits P (io_bind m f)"
  unfolding emits_def
proof
  fix tr
  obtain r tr1 where m: "m tr = (r, tr1)" by fastforce
  from emitsD [OF assms(1) m] obtain evs where evs: "tr1 = tr @ evs" "\<forall>e \<in> set evs. P e" .
  show "\<exists>evs. snd (io_bind m f tr) = tr @ evs \<and> (\<forall>e \<in> set evs. P e)"
  proof (cases r)
    case (Inl e)
    then show ?thesis using m evs by (auto simp: io_bind_def)
  next
    case (Inr x)
    obtain r2 tr2 where f: "f x tr1 = (r2, tr2)" by fastforce
    from emitsD [OF assms(2) [OF m [unfolded Inr]] f] obtain evs2 where "tr2 = tr1 @ evs2" "\<forall>e \<in> set evs2. P e" .
    then have "snd (io_bind m f tr) = tr @ (evs @ evs2) \<and> (\<forall>e \<in> set (evs @ evs2). P e)"
      using Inr m evs f by (auto simp: io_bind_def)
    then show ?thesis by blast
  qed
qed

lemma emits_bind: "emits P m \<Longrightarrow> (\<And>x. emits P (f x)) \<Longrightarrow> emits P (io_bind m f)"
  by (rule emits_bind_Inr)

lemma emits_pure [simp]: "emits P (io_return x)" "emits P (io_fail e)" "emits P (io_lift r)"
  by (auto simp: emits_def intro: exI [of _ "[]"])

lemma emits_map_err [simp]: "emits P (io_map_err g m) = emits P m"
  by (simp add: emits_def)

lemma emits_if: "(b \<Longrightarrow> emits P m) \<Longrightarrow> (\<not> b \<Longrightarrow> emits P m') \<Longrightarrow> emits P (if b then m else m')"
  by simp

lemma emits_calls:
  "(\<And>n r. P (ReadExact c n r)) \<Longrightarrow> emits P (read_exact env c d n)"
  "(\<And>bs r. P (WriteAll c bs r)) \<Longrightarrow> emits P (write_all env c d bs)"
  "(\<And>r. P (ConnectTo addr r)) \<Longrightarrow> emits P (connect_to env d addr)"
  "(\<And>r. P (CopyBidirectional a b r)) \<Longrightarrow> emits P (copy_bidirectional env d a b)"
  "(\<And>r. P (Post call r)) \<Longrightarrow> emits P (post_within env t call)"
  "(\<And>r. P (Post call r)) \<Longrightarrow> emits P (post env call)"
  "(\<And>m. m \<in> set ms \<Longrightarrow> P (Metric m)) \<Longrightarrow> emits P (emit ms)"
  by (auto simp: emits_def read_exact_def write_all_def connect_to_def copy_bidirectional_def post_within_def post_def
      emit_def Let_def)

definition is_read :: "conn \<Rightarrow> Event \<Rightarrow> bool" where
  "is_read c e \<longleftrightarrow> (\<exists>n r. e = ReadExact c n r)"

lemma is_read_ReadExact [simp]: "is_read c (ReadExact c' n r) \<longleftrightarrow> c' = c"
  by (auto simp: is_read_def)

lemma reads_send_nothing: "\<forall>e \<in> set evs. is_read c e \<Longrightarrow> sent c' evs = []"
  by (induction evs) (auto simp: is_read_def)

lemma reads_elsewhere: "\<forall>e \<in> set evs. is_read c e \<Longrightarrow> c' \<noteq> c \<Longrightarrow> received c' evs = []"
proof (induction evs)
  case (Cons e evs)
  then obtain n r where "e = ReadExact c n r" by (auto simp: is_read_def)
  then show ?case using Cons by (cases r) auto
qed simp

text \<open>\<^verbatim>\<open>read_exact\<close> that succeeded, seen from the trace.\<close>

lemma read_exact_Inr:
  "read_exact env c d n tr = (Inr bs, tr') \<Longrightarrow> reads_exact env \<Longrightarrow>
    tr' = tr @ [ReadExact c n (Inr bs)] \<and> length bs = n"
  by (auto simp: read_exact_def reads_exact_def Let_def)

lemma write_all_Inr: "write_all env c d bs tr = (Inr u, tr') \<Longrightarrow> tr' = tr @ [WriteAll c bs (Inr ())]"
  by (auto simp: write_all_def Let_def)

lemma write_all_accepted: "accepts env c \<Longrightarrow> write_all env c d bs tr = (Inr (), tr @ [WriteAll c bs (Inr ())])"
  by (simp add: write_all_def accepts_def Let_def)

section \<open>Readers of frames\<close>

text \<open>
  What a server needs of a function that reads one frame off a connection: it only reads; when
  it succeeds it has consumed exactly one frame (up to what \<open>canon\<close> erases) and returns its
  content; and it does succeed when the peer sends a frame.
\<close>

locale frame_reader =
  fixes reader :: "Env \<Rightarrow> conn \<Rightarrow> Duration \<Rightarrow> ('e, 'a) session"
    and wf :: "'a \<Rightarrow> bool" and encode :: "'a \<Rightarrow> bytes" and canon :: "bytes \<Rightarrow> bytes"
  assumes only_reads: "emits (is_read c) (reader env c d)"
    and read_sound: "reads_exact env \<Longrightarrow> reader env c d tr = (Inr x, tr @ evs) \<Longrightarrow>
      wf x \<and> canon (received c evs) = encode x"
    and read_complete: "delivers env c inbox \<Longrightarrow> pending c inbox tr = bs @ rest \<Longrightarrow> wf x \<Longrightarrow> canon bs = encode x \<Longrightarrow>
      \<exists>evs. reader env c d tr = (Inr x, tr @ evs) \<and> received c evs = bs"
begin

lemma read_frame:
  assumes "reads_exact env" "reader env c d tr = (Inr x, tr')"
  obtains evs where "tr' = tr @ evs" "wf x" "canon (received c evs) = encode x" "sent c' evs = []"
    "\<forall>e \<in> set evs. is_read c e"
  using emitsD [OF only_reads assms(2)] read_sound [OF assms(1)] assms(2) reads_send_nothing by metis

lemma read_delivered:
  assumes "delivers env c inbox" "pending c inbox tr = bs @ rest" "wf x" "canon bs = encode x"
  obtains evs where "reader env c d tr = (Inr x, tr @ evs)" "received c evs = bs"
    "pending c inbox (tr @ evs) = rest" "sent c' evs = []" "\<forall>e \<in> set evs. is_read c e"
proof -
  obtain evs where evs: "reader env c d tr = (Inr x, tr @ evs)" "received c evs = bs"
    using read_complete [OF assms] by blast
  have reads: "\<forall>e \<in> set evs. is_read c e"
    using emitsD [OF only_reads evs(1)] by (metis same_append_eq)
  show thesis
    using that [OF evs pending_append [OF assms(2) [folded evs(2)]] reads_send_nothing [OF reads] reads] .
qed

end

text \<open>Renaming the errors of a reader keeps the contract.\<close>

lemma frame_reader_map_err:
  assumes "frame_reader (\<lambda>env c d. io_map_err g (reader env c d)) ok encode canon"
  shows "frame_reader reader ok encode canon"
  using assms unfolding frame_reader_def by simp

end
