(* ===== verification/Gateway_Handler.thy ===== *)
theory Gateway_Handler
  imports Net_World
begin

text \<open>
  One client connection of the SOCKS5 gateway, from \<^verbatim>\<open>handler.rs\<close>, with the control
  plane client (\<^verbatim>\<open>proxy_client.rs\<close>), the relay (\<^verbatim>\<open>relay.rs\<close>), the error type and the metrics it
  records. \<^verbatim>\<open>conn_id\<close>, \<^verbatim>\<open>peer\<close> and the log lines are left out.
\<close>

section \<open>Errors and metrics\<close>

datatype GatewayError =
    GwProtocol string
  | GwTimeout string
  | GwNoNode
  | GwIo IoError
  | GwRelay string

definition gw_record_connection_opened :: "MetricCall list" where
  "gw_record_connection_opened = [CounterAdd ''proxy_connections_total'' 1, GaugeAdd ''proxy_active_connections'' 1]"

definition gw_record_connection_closed :: "MetricCall list" where
  "gw_record_connection_closed = [GaugeAdd ''proxy_active_connections'' (- 1)]"

definition gw_record_connection_error :: "MetricCall list" where
  "gw_record_connection_error = [CounterAdd ''proxy_connection_errors_total'' 1]"

definition gw_record_bytes_up :: "u64 \<Rightarrow> MetricCall list" where
  "gw_record_bytes_up n = [CounterAdd ''proxy_bytes_up_total'' n]"

definition gw_record_bytes_down :: "u64 \<Rightarrow> MetricCall list" where
  "gw_record_bytes_down n = [CounterAdd ''proxy_bytes_down_total'' n]"

section \<open>The control plane client\<close>

record RemoteNode =
  rn_id :: string
  rn_forward_address :: string

record ControlPlaneClient =
  cl_base_url :: string
  cl_token :: "string option"

definition trim_end_matches :: "char \<Rightarrow> string \<Rightarrow> string" where
  "trim_end_matches ch s = rev (dropWhile (\<lambda>x. x = ch) (rev s))"

definition ControlPlaneClient_new :: "string \<Rightarrow> string option \<Rightarrow> ControlPlaneClient" where
  "ControlPlaneClient_new base_url token =
     \<lparr>cl_base_url = trim_end_matches (CHR ''/'') base_url, cl_token = token\<rparr>"

definition authed :: "ControlPlaneClient \<Rightarrow> string \<Rightarrow> HttpPayload \<Rightarrow> HttpCall" where
  "authed client url payload =
     \<lparr>hc_url = url, hc_bearer = (case cl_token client of Some t \<Rightarrow> Some t | None \<Rightarrow> None), hc_payload = payload\<rparr>"

definition is_success :: "nat \<Rightarrow> bool" where
  "is_success status \<longleftrightarrow> 200 \<le> status \<and> status < 300"

text \<open>\<^verbatim>\<open>select_node\<close> under the caller's timeout: \<open>Elapsed\<close> when it is cut off.\<close>

definition gw_select_node :: "Env \<Rightarrow> Duration \<Rightarrow> ControlPlaneClient \<Rightarrow> (GatewayError timed, RemoteNode) session" where
  "gw_select_node env dt client =
     io_bind (io_map_err (\<lambda>f. case f of Elapsed \<Rightarrow> Elapsed
                                     | Done e \<Rightarrow> Done (GwRelay (''control plane unreachable: '' @ e)))
       (post_within env dt (authed client (cl_base_url client @ ''/nodes/select'') NoPayload))) (\<lambda>resp.
     if hr_status resp = 503 then io_fail (Done GwNoNode)
     else if \<not> is_success (hr_status resp) then
       io_fail (Done (GwRelay (''control plane select failed with status '' @ env_status_string env (hr_status resp))))
     else io_bind (io_lift (map_err (\<lambda>e. Done (GwRelay (''invalid select response: '' @ e))) (hr_json resp))) (\<lambda>node.
     io_return \<lparr>rn_id = sr_id node, rn_forward_address = sr_address node\<rparr>))"

section \<open>The handler's context and helpers\<close>

record GatewayContext =
  gc_client :: ControlPlaneClient
  gc_auth :: "(string \<times> string) option"
  gc_connect_timeout :: Duration
  gc_idle_timeout :: Duration

definition gw_read_exact_timeout :: "Env \<Rightarrow> conn \<Rightarrow> nat \<Rightarrow> Duration \<Rightarrow> (GatewayError, bytes) session" where
  "gw_read_exact_timeout env c n deadline =
     io_map_err (\<lambda>f. case f of Elapsed \<Rightarrow> GwTimeout ''handshake read timed out'' | Done e \<Rightarrow> GwIo e)
       (read_exact env c deadline n)"

definition gw_write_all_timeout :: "Env \<Rightarrow> conn \<Rightarrow> bytes \<Rightarrow> Duration \<Rightarrow> (GatewayError, unit) session" where
  "gw_write_all_timeout env c data deadline =
     io_map_err (\<lambda>f. case f of Elapsed \<Rightarrow> GwTimeout ''handshake write timed out'' | Done e \<Rightarrow> GwIo e)
       (write_all env c deadline data)"

definition reply_bytes :: "u8 \<Rightarrow> bytes" where
  "reply_bytes code = Reply_to_bytes (simple_reply code)"

definition gw_try_reply :: "Env \<Rightarrow> conn \<Rightarrow> u8 \<Rightarrow> Duration \<Rightarrow> (GatewayError, unit) session" where
  "gw_try_reply env c code deadline tr =
     (case gw_write_all_timeout env c (reply_bytes code) deadline tr of (_, tr') \<Rightarrow> (Inr (), tr'))"

section \<open>Reading the client's messages\<close>

definition gw_read_greeting :: "Env \<Rightarrow> conn \<Rightarrow> Duration \<Rightarrow> (GatewayError, Greeting) session" where
  "gw_read_greeting env c deadline =
     io_bind (gw_read_exact_timeout env c GREETING_HEADER_LEN deadline) (\<lambda>hdr.
     let nmethods = unat (hdr ! 1) in
     if nmethods = 0 then io_fail (GwProtocol ''greeting: no methods'') else
     io_bind (gw_read_exact_timeout env c nmethods deadline) (\<lambda>methods.
     io_lift (map_err (\<lambda>e. GwProtocol (ProtocolError_to_string e)) (Greeting_parse (hdr @ methods)))))"

text \<open>The reads and conversions of \<^verbatim>\<open>handle_user_pass_auth\<close>, up to the comparison.\<close>

definition gw_read_credentials :: "Env \<Rightarrow> conn \<Rightarrow> Duration \<Rightarrow> (GatewayError, UsernamePassword) session" where
  "gw_read_credentials env c deadline =
     io_bind (gw_read_exact_timeout env c 1 deadline) (\<lambda>ver.
     if ver ! 0 \<noteq> AUTH_VERSION then
       io_fail (GwProtocol (''auth frame version '' @ hex04 (ver ! 0) @ '', expected '' @ hex04 AUTH_VERSION))
     else
     io_bind (gw_read_exact_timeout env c 1 deadline) (\<lambda>ul.
     let ulen = unat (ul ! 0) in
     if ulen = 0 \<or> ulen > 255 then io_fail (GwProtocol ''invalid username length'') else
     io_bind (gw_read_exact_timeout env c ulen deadline) (\<lambda>uname.
     io_bind (gw_read_exact_timeout env c 1 deadline) (\<lambda>pl.
     let plen = unat (pl ! 0) in
     io_bind (gw_read_exact_timeout env c plen deadline) (\<lambda>passwd.
     io_bind (io_lift (ok_or (GwProtocol ''invalid utf-8 in username'') (from_utf8 uname))) (\<lambda>username.
     io_bind (io_lift (ok_or (GwProtocol ''invalid utf-8 in password'') (from_utf8 passwd))) (\<lambda>password.
     io_return \<lparr>up_username = username, up_password = password\<rparr>)))))))"

definition gw_handle_user_pass_auth :: "Env \<Rightarrow> conn \<Rightarrow> GatewayContext \<Rightarrow> (GatewayError, unit) session" where
  "gw_handle_user_pass_auth env c ctx =
     io_bind (gw_read_credentials env c (gc_connect_timeout ctx)) (\<lambda>cred.
     let ok = (case gc_auth ctx of
                 Some (expected_user, expected_pass) \<Rightarrow>
                   up_username cred = expected_user \<and> up_password cred = expected_pass
               | None \<Rightarrow> False);
         status = (if ok then auth_SUCCESS else auth_FAILURE) in
     io_bind (gw_write_all_timeout env c (auth_reply_bytes status) (gc_connect_timeout ctx)) (\<lambda>_.
     if \<not> ok then io_fail (GwProtocol ''authentication failed'') else io_return ()))"

definition gw_read_request :: "Env \<Rightarrow> conn \<Rightarrow> Duration \<Rightarrow> (GatewayError, Request) session" where
  "gw_read_request env c deadline =
     io_bind (gw_read_exact_timeout env c REQUEST_HEADER_LEN deadline) (\<lambda>hdr.
     let atyp = hdr ! 3 in
     io_bind
       (if atyp = atyp_DOMAIN then
          io_bind (gw_read_exact_timeout env c 1 deadline) (\<lambda>len_byte.
          let len = len_byte ! 0 in
          io_bind (io_lift (map_err (\<lambda>e. GwProtocol (ProtocolError_to_string e)) (addr_len atyp (Some len)))) (\<lambda>total.
          io_return (total - 1, Some len)))
        else
          io_bind (io_lift (map_err (\<lambda>e. GwProtocol (ProtocolError_to_string e)) (addr_len atyp None))) (\<lambda>total.
          io_return (total, None))) (\<lambda>(addr_buf_len, domain_len).
     io_bind (gw_read_exact_timeout env c addr_buf_len deadline) (\<lambda>addr_buf.
     let full = hdr @ (case domain_len of Some len \<Rightarrow> [len] | None \<Rightarrow> []) @ addr_buf in
     io_lift (map_err (\<lambda>e. GwProtocol (ProtocolError_to_string e)) (map_ok fst (Request_parse full))))))"

section \<open>Chaining to the node\<close>

text \<open>The length of the bound address in the node's reply, as the gateway computes it.\<close>

definition node_addr_len :: "Env \<Rightarrow> conn \<Rightarrow> Duration \<Rightarrow> u8 \<Rightarrow> (GatewayError, nat) session" where
  "node_addr_len env s deadline atyp =
     (if atyp = atyp_IPV4 then io_return (4 + 2)
      else if atyp = atyp_IPV6 then io_return (16 + 2)
      else if atyp = atyp_DOMAIN then
        io_bind (gw_read_exact_timeout env s 1 deadline) (\<lambda>dlen. io_return (1 + unat (dlen ! 0) + 2))
      else io_fail (GwProtocol ''unknown node reply ATYP''))"

definition read_node_reply :: "Env \<Rightarrow> conn \<Rightarrow> Duration \<Rightarrow> (GatewayError, u8) session" where
  "read_node_reply env s deadline =
     io_bind (gw_read_exact_timeout env s 4 deadline) (\<lambda>reply_buf.
     if reply_buf ! 0 \<noteq> VERSION then io_fail (GwProtocol ''node reply version mismatch'') else
     io_bind (node_addr_len env s deadline (reply_buf ! 3)) (\<lambda>n.
     io_bind (gw_read_exact_timeout env s n deadline) (\<lambda>_.
     io_return (reply_buf ! 1))))"

definition connect_and_chain :: "Env \<Rightarrow> string \<Rightarrow> SocksAddr \<Rightarrow> Duration \<Rightarrow> (GatewayError, conn) session" where
  "connect_and_chain env node_address dest deadline =
     io_bind (io_map_err (\<lambda>f. case f of Elapsed \<Rightarrow> GwTimeout (''node connect timed out ('' @ node_address @ '')'')
                                     | Done e \<Rightarrow> GwIo e)
       (connect_to env deadline node_address)) (\<lambda>s.
     io_bind (gw_write_all_timeout env s [VERSION, 1, 0] deadline) (\<lambda>_.
     io_bind (gw_read_exact_timeout env s 2 deadline) (\<lambda>sel.
     if sel ! 0 \<noteq> VERSION then io_fail (GwProtocol (''node selection version '' @ hex04 (sel ! 0)))
     else if sel ! 1 \<noteq> method_NO_AUTH then
       io_fail (GwProtocol (''node rejected NO_AUTH (got '' @ hex04 (sel ! 1) @ '')''))
     else
     io_bind (gw_write_all_timeout env s
       (Request_to_bytes \<lparr>rq_command = Connect, rq_addr = dest\<rparr>) deadline) (\<lambda>_.
     io_bind (read_node_reply env s deadline) (\<lambda>rep.
     if rep \<noteq> reply_SUCCESS then io_fail (GwRelay (''node CONNECT failed (reply '' @ hex04 rep @ '')''))
     else io_return s)))))"

section \<open>The relay and the session\<close>

record RelayStats =
  rs_bytes_up :: u64
  rs_bytes_down :: u64

definition relay :: "Env \<Rightarrow> conn \<Rightarrow> conn \<Rightarrow> Duration \<Rightarrow> (GatewayError, RelayStats) session" where
  "relay env client node idle_timeout =
     io_bind (io_map_err (\<lambda>f. case f of Elapsed \<Rightarrow> GwTimeout ''relay idle timeout''
                                     | Done e \<Rightarrow> GwRelay (env_io_string env e))
       (copy_bidirectional env idle_timeout client node)) (\<lambda>(up, down).
     io_return \<lparr>rs_bytes_up = up, rs_bytes_down = down\<rparr>)"

text \<open>Steps 1 and 2 of \<^verbatim>\<open>run_with_ctx\<close>, step 3, and steps 4 to 7.\<close>

definition gw_authenticate :: "Env \<Rightarrow> conn \<Rightarrow> GatewayContext \<Rightarrow> (GatewayError, unit) session" where
  "gw_authenticate env client ctx =
     (let dt = gc_connect_timeout ctx in
      io_bind (gw_read_greeting env client dt) (\<lambda>greeting.
      let allow_no_auth = (gc_auth ctx = None); allow_user_pass = (gc_auth ctx \<noteq> None);
          mthd = negotiate greeting allow_user_pass allow_no_auth in
      io_bind (gw_write_all_timeout env client (MethodSelection_to_bytes mthd) dt) (\<lambda>_.
      if ms_method mthd = method_NO_ACCEPTABLE then
        io_fail (GwProtocol ''no acceptable authentication method'')
      else if ms_method mthd = method_USER_PASS then gw_handle_user_pass_auth env client ctx
      else io_return ())))"

definition gw_accept_request :: "Env \<Rightarrow> conn \<Rightarrow> Duration \<Rightarrow> (GatewayError, Request) session" where
  "gw_accept_request env client dt =
     io_bind (gw_read_request env client dt) (\<lambda>request.
     if rq_command request \<noteq> Connect then
       io_bind (gw_try_reply env client reply_COMMAND_NOT_SUPPORTED dt) (\<lambda>_.
       io_fail (GwProtocol ''unsupported command (only CONNECT is supported)''))
     else io_return request)"

definition gw_pick_node :: "Env \<Rightarrow> conn \<Rightarrow> GatewayContext \<Rightarrow> (GatewayError, RemoteNode) session" where
  "gw_pick_node env client ctx tr =
     (let dt = gc_connect_timeout ctx in
      case gw_select_node env dt (gc_client ctx) tr of
        (Inl Elapsed, tr') \<Rightarrow>
          io_bind (gw_try_reply env client reply_HOST_UNREACHABLE dt) (\<lambda>_.
          io_fail (GwTimeout ''select node timed out'')) tr'
      | (Inl (Done e), tr') \<Rightarrow>
          io_bind (gw_try_reply env client reply_HOST_UNREACHABLE dt) (\<lambda>_. io_fail e) tr'
      | (Inr n, tr') \<Rightarrow> (Inr n, tr'))"

definition gw_serve :: "Env \<Rightarrow> conn \<Rightarrow> GatewayContext \<Rightarrow> Request \<Rightarrow> (GatewayError, unit) session" where
  "gw_serve env client ctx request =
     (let dt = gc_connect_timeout ctx in
      io_bind (gw_pick_node env client ctx) (\<lambda>node.
      io_bind (connect_and_chain env (rn_forward_address node) (rq_addr request) dt) (\<lambda>node_stream.
      io_bind (gw_write_all_timeout env client (reply_bytes reply_SUCCESS) dt) (\<lambda>_.
      io_bind (relay env client node_stream (gc_idle_timeout ctx)) (\<lambda>stats.
      io_bind (emit (gw_record_bytes_up (rs_bytes_up stats))) (\<lambda>_.
      emit (gw_record_bytes_down (rs_bytes_down stats))))))))"

definition gw_run_with_ctx :: "Env \<Rightarrow> conn \<Rightarrow> GatewayContext \<Rightarrow> (GatewayError, unit) session" where
  "gw_run_with_ctx env client ctx =
     io_bind (gw_authenticate env client ctx) (\<lambda>_.
     io_bind (gw_accept_request env client (gc_connect_timeout ctx)) (\<lambda>request.
     gw_serve env client ctx request))"

definition gw_handle_connection :: "Env \<Rightarrow> conn \<Rightarrow> GatewayContext \<Rightarrow> trace \<Rightarrow> trace" where
  "gw_handle_connection env client ctx tr =
     (case gw_run_with_ctx env client ctx (tr @ map Metric gw_record_connection_opened) of
        (Inr _, tr') \<Rightarrow> tr' @ map Metric gw_record_connection_closed
      | (Inl e, tr') \<Rightarrow> tr' @ map Metric (gw_record_connection_error @ gw_record_connection_closed))"

section \<open>What the helpers do\<close>

lemma gw_read_Inr:
  "gw_read_exact_timeout env c n d tr = (Inr bs, tr') \<Longrightarrow> reads_exact env \<Longrightarrow>
    tr' = tr @ [ReadExact c n (Inr bs)] \<and> length bs = n"
  by (simp add: gw_read_exact_timeout_def read_exact_Inr)

lemma gw_write_Inr: "gw_write_all_timeout env c bs d tr = (Inr u, tr') \<Longrightarrow> tr' = tr @ [WriteAll c bs (Inr ())]"
  by (simp add: gw_write_all_timeout_def write_all_Inr)

lemma gw_read_delivered:
  assumes "delivers env c inbox" "pending c inbox tr = bs @ rest" "length bs = n"
  shows "gw_read_exact_timeout env c n d tr = (Inr bs, tr @ [ReadExact c n (Inr bs)])"
    and "pending c inbox (tr @ [ReadExact c n (Inr bs)]) = rest"
  using read_exact_delivered [OF assms] assms(2)
  by (simp_all add: gw_read_exact_timeout_def pending_append)

lemma gw_write_accepted:
  "accepts env c \<Longrightarrow> gw_write_all_timeout env c bs d tr = (Inr (), tr @ [WriteAll c bs (Inr ())])"
  by (simp add: gw_write_all_timeout_def write_all_accepted)

lemma emits_gw_calls:
  "(\<And>n r. P (ReadExact c n r)) \<Longrightarrow> emits P (gw_read_exact_timeout env c n d)"
  "(\<And>bs r. P (WriteAll c bs r)) \<Longrightarrow> emits P (gw_write_all_timeout env c bs d)"
  "(\<And>bs r. P (WriteAll c bs r)) \<Longrightarrow> emits P (gw_try_reply env c code d)"
proof -
  show w: "emits P (gw_write_all_timeout env c bs d)" if "\<And>bs r. P (WriteAll c bs r)" for bs
    using that by (simp add: gw_write_all_timeout_def emits_calls)
  show "emits P (gw_try_reply env c code d)" if "\<And>bs r. P (WriteAll c bs r)"
    using w [OF that, of "reply_bytes code"] by (simp add: emits_def gw_try_reply_def case_prod_beta)
qed (simp add: gw_read_exact_timeout_def emits_calls)

section \<open>The readers consume exactly one frame\<close>

lemma list1: "length xs = Suc 0 \<Longrightarrow> \<exists>a. xs = [a]"
  by (cases xs) auto

lemma list2: "length xs = 2 \<Longrightarrow> \<exists>a b. xs = [a, b]"
  by (auto simp: eval_nat_numeral length_Suc_conv)

lemma list4: "length xs = 4 \<Longrightarrow> \<exists>a b c d. xs = [a, b, c, d]"
  by (auto simp: eval_nat_numeral length_Suc_conv)

interpretation gw_greeting: frame_reader gw_read_greeting greeting_ok greeting_bytes id
proof
  fix c :: conn and env d
  show "emits (is_read c) (gw_read_greeting env c d)"
    unfolding gw_read_greeting_def Let_def by (intro emits_bind emits_if emits_gw_calls emits_pure) simp_all
next
  fix env c d tr g evs
  assume "reads_exact env" "gw_read_greeting env c d tr = (Inr g, tr @ evs)"
  then show "greeting_ok g \<and> id (received c evs) = greeting_bytes g"
    by (auto simp: gw_read_greeting_def Let_def io_bind_eq_Inr Greeting_parse_eq greeting_bytes_def greeting_ok_def
        u8_le_255 dest!: gw_read_Inr list2 split: if_splits)
next
  fix env c inbox tr bs rest d and g :: Greeting
  assume a: "delivers env c inbox" "pending c inbox tr = bs @ rest" "greeting_ok g" "id bs = greeting_bytes g"
  let ?n = "len_as_u8 (length (gr_methods g))"
  have n: "unat ?n = length (gr_methods g)" "length (gr_methods g) \<noteq> 0"
    using a(3) by (simp_all add: greeting_ok_def len_as_u8_eq)
  have p: "pending c inbox tr = [5, ?n] @ (gr_methods g @ rest)" using a(2,4) by (simp add: greeting_bytes_def)
  note r1 = gw_read_delivered [OF a(1) p, of 2]
  note r2 = gw_read_delivered [OF a(1) r1(2), of "length (gr_methods g)"]
  have "Greeting_parse ([VERSION, ?n] @ gr_methods g) = Inr g"
    using greeting_roundtrip [OF a(3), of "[]"] by (simp add: greeting_bytes_def)
  then have "gw_read_greeting env c d tr =
      (Inr g, tr @ [ReadExact c 2 (Inr [5, ?n]), ReadExact c (length (gr_methods g)) (Inr (gr_methods g))])"
    using n unfolding gw_read_greeting_def GREETING_HEADER_LEN_def
    by (simp add: io_bind_def r1(1) r2(1) Let_def)
  then show "\<exists>evs. gw_read_greeting env c d tr = (Inr g, tr @ evs) \<and> received c evs = bs"
    using a(4) by (intro exI conjI) (auto simp: greeting_bytes_def)
qed

interpretation gw_credentials: frame_reader gw_read_credentials credential_ok UsernamePassword_to_vec id
proof
  fix c :: conn and env d
  show "emits (is_read c) (gw_read_credentials env c d)"
    unfolding gw_read_credentials_def Let_def by (intro emits_bind emits_if emits_gw_calls emits_pure) simp_all
next
  fix env c d tr x evs
  assume "reads_exact env" "gw_read_credentials env c d tr = (Inr x, tr @ evs)"
  then show "credential_ok x \<and> id (received c evs) = UsernamePassword_to_vec x"
    by (auto simp: gw_read_credentials_def Let_def io_bind_eq_Inr UsernamePassword_to_vec_def credential_ok_def
        from_utf8_Some ok_or_def u8_le_255 dest!: gw_read_Inr list1 split: if_splits option.splits)
next
  fix env c inbox tr bs rest d and x :: UsernamePassword
  assume a: "delivers env c inbox" "pending c inbox tr = bs @ rest" "credential_ok x" "id bs = UsernamePassword_to_vec x"
  let ?u = "up_username x" and ?p = "up_password x"
  have n: "unat (len_as_u8 (length ?u)) = length ?u" "unat (len_as_u8 (length ?p)) = length ?p" "?u \<noteq> []"
      "length ?u \<le> 255" and utf: "is_rust_string ?u" "is_rust_string ?p"
    using a(3) by (auto simp: credential_ok_def len_as_u8_eq)
  have p: "pending c inbox tr = [1] @ [len_as_u8 (length ?u)] @ as_bytes ?u @ [len_as_u8 (length ?p)] @ as_bytes ?p @ rest"
    using a(2,4) by (simp add: UsernamePassword_to_vec_def)
  note r1 = gw_read_delivered [OF a(1) p, of "Suc 0"]
  note r2 = gw_read_delivered [OF a(1) r1(2), of "Suc 0"]
  note r3 = gw_read_delivered [OF a(1) r2(2), of "length ?u"]
  note r4 = gw_read_delivered [OF a(1) r3(2), of "Suc 0"]
  note r5 = gw_read_delivered [OF a(1) r4(2), of "length ?p"]
  note reads = r1(1) r2(1) r3(1) [unfolded append_assoc append.simps] r4(1) [unfolded append_assoc append.simps]
    r5(1) [unfolded append_assoc append.simps]
  have "gw_read_credentials env c d tr = (Inr x, tr @
      [ReadExact c (Suc 0) (Inr [1]), ReadExact c (Suc 0) (Inr [len_as_u8 (length ?u)]), ReadExact c (length ?u) (Inr (as_bytes ?u)),
       ReadExact c (Suc 0) (Inr [len_as_u8 (length ?p)]), ReadExact c (length ?p) (Inr (as_bytes ?p))])"
    using n utf unfolding gw_read_credentials_def
    by (simp add: io_bind_def reads Let_def)
  then show "\<exists>evs. gw_read_credentials env c d tr = (Inr x, tr @ evs) \<and> received c evs = bs"
    using a(4) by (intro exI conjI) (auto simp: UsernamePassword_to_vec_def)
qed

lemma header_canon_nth: "i \<noteq> 2 \<Longrightarrow> header_canon b ! i = b ! i"
  by (simp add: header_canon_def)

text \<open>A buffer of the length \<^verbatim>\<open>addr_len\<close> announces is one request, whole.\<close>

lemma full_request:
  assumes "Request_parse full = Inr (q, n)" and "addr_len (full ! 3) (Some (full ! 4)) = Inr m"
    and "length full = 4 + m"
  shows "request_ok q \<and> header_canon full = Request_to_bytes q"
proof -
  obtain tail where q: "request_ok q" and canon: "header_canon full = Request_to_bytes q @ tail"
    using Request_parse_sound [OF assms(1)] by blast
  have "5 \<le> length (Request_to_bytes q)"
    using q by (cases "sa_host (rq_addr q)" rule: host_atyp.cases) (auto simp: Request_to_bytes_eq request_ok_def)
  then have "Request_to_bytes q ! i = full ! i" if "i \<in> {3, 4}" for i
    using that header_canon_nth [of i full] by (auto simp: canon nth_append)
  then have "m = length (Request_to_bytes q) - 4" "4 \<le> length (Request_to_bytes q)"
    using addr_len_request [OF q] assms(2) by simp_all
  moreover have "length full = length (Request_to_bytes q) + length tail"
    using arg_cong [OF canon, of length] by (simp add: header_canon_def)
  ultimately show ?thesis using q canon assms(3) by simp
qed

lemma gw_read_request_sound:
  assumes "reads_exact env" "gw_read_request env c d tr = (Inr q, tr @ evs)"
  shows "request_ok q \<and> header_canon (received c evs) = Request_to_bytes q"
proof -
  obtain hdr buf_len dl tr1 tr2 buf n where hdr: "length hdr = 4" "tr1 = tr @ [ReadExact c 4 (Inr hdr)]"
    and len: "(if hdr ! 3 = atyp_DOMAIN then
          io_bind (gw_read_exact_timeout env c 1 d) (\<lambda>len_byte. let len = len_byte ! 0 in
          io_bind (io_lift (map_err (\<lambda>e. GwProtocol (ProtocolError_to_string e)) (addr_len (hdr ! 3) (Some len))))
            (\<lambda>m. io_return (m - 1, Some len)))
        else io_bind (io_lift (map_err (\<lambda>e. GwProtocol (ProtocolError_to_string e)) (addr_len (hdr ! 3) None)))
            (\<lambda>m. io_return (m, None))) tr1 = (Inr (buf_len, dl), tr2)"
    and buf: "length buf = buf_len" "tr @ evs = tr2 @ [ReadExact c buf_len (Inr buf)]"
    and parse: "Request_parse (hdr @ (case dl of Some len \<Rightarrow> [len] | None \<Rightarrow> []) @ buf) = Inr (q, n)"
    using assms unfolding gw_read_request_def Let_def REQUEST_HEADER_LEN_def
    by (clarsimp simp: io_bind_eq_Inr dest!: gw_read_Inr split: prod.splits) (auto simp: map_ok_def split: sum.splits)
  show ?thesis
  proof (cases "hdr ! 3 = atyp_DOMAIN")
    case True
    then obtain l m where dl: "dl = Some l" "addr_len (hdr ! 3) (Some l) = Inr m" "buf_len = m - 1"
        "tr2 = tr1 @ [ReadExact c 1 (Inr [l])]"
      using len assms(1) by (auto simp: io_bind_eq_Inr Let_def dest!: gw_read_Inr list1)
    moreover have "1 \<le> m" using dl(2) True by (auto simp: addr_len_def Let_def split: if_splits)
    ultimately show ?thesis
      using full_request [OF parse, of m] hdr buf by (auto simp: nth_append)
  next
    case False
    then obtain m where dl: "dl = None" "addr_len (hdr ! 3) None = Inr m" "buf_len = m" "tr2 = tr1"
      using len by (auto simp: io_bind_eq_Inr)
    then show ?thesis
      using full_request [OF parse, of m] hdr buf addr_len_None [OF False] by (auto simp: nth_append)
  qed
qed

lemma gw_read_request_complete:
  assumes inbox: "delivers env c inbox" "pending c inbox tr = bs @ rest"
    and q: "request_ok q" and canon: "header_canon bs = Request_to_bytes q"
  shows "\<exists>evs. gw_read_request env c d tr = (Inr q, tr @ evs) \<and> received c evs = bs"
proof -
  let ?h = "sa_host (rq_addr q)" and ?pb = "port_bytes (sa_port (rq_addr q))"
  obtain rsv where bs: "bs = [VERSION, Command_to_u8 (rq_command q), rsv, host_atyp ?h] @ host_bytes ?h @ ?pb"
    using canon q by (auto simp: Request_to_bytes_eq elim: header_canon_eqE [unfolded append.simps])
  have parse: "Request_parse bs = Inr (q, length (Request_to_bytes q))"
    using Request_parse_any_rsv [OF q, of rsv "[]"] by (simp add: bs del: VERSION_def)
  show ?thesis
  proof (cases ?h)
    case (Domain name)
    let ?l = "len_as_u8 (length name)" and ?cmd = "Command_to_u8 (rq_command q)"
    have name: "name \<noteq> []" "unat ?l = length name" using q Domain by (auto simp: request_ok_def len_as_u8_eq)
    then have al: "addr_len 3 (Some ?l) = Inr (Suc (length name + 2))"
      using u8_le_255 [of ?l] by (simp add: addr_len_def)
    have "pending c inbox tr = [5, ?cmd, rsv, 3] @ [?l] @ (as_bytes name @ ?pb) @ rest"
      using inbox(2) by (simp add: bs Domain)
    note r1 = gw_read_delivered [OF inbox(1) this, of 4]
    note r2 = gw_read_delivered [OF inbox(1) r1(2), of "Suc 0"]
    note r3 = gw_read_delivered [OF inbox(1) r2(2), of "length name + 2", unfolded append_assoc append.simps]
    have "gw_read_request env c d tr = (Inr q, tr @ [ReadExact c 4 (Inr [5, ?cmd, rsv, 3]), ReadExact c (Suc 0) (Inr [?l]),
        ReadExact c (length name + 2) (Inr (as_bytes name @ ?pb))])"
      using parse r1(1) r2(1) r3(1) al unfolding gw_read_request_def Let_def io_bind_def
      by (simp add: bs Domain)
    then show ?thesis by (auto simp: bs Domain)
  next
    case (Ip ip)
    let ?n = "length (octets ip) + 2" and ?at = "host_atyp (Ip ip)" and ?cmd = "Command_to_u8 (rq_command q)"
    have al: "addr_len ?at None = Inr ?n" and at: "?at \<noteq> 3"
      using q Ip by (cases ip; simp add: addr_len_def request_ok_def)+
    have "pending c inbox tr = [5, ?cmd, rsv, ?at] @ (octets ip @ ?pb) @ rest" using inbox(2) by (simp add: bs Ip)
    note r1 = gw_read_delivered [OF inbox(1) this, of 4]
    note r2 = gw_read_delivered [OF inbox(1) r1(2), of ?n]
    have "gw_read_request env c d tr = (Inr q, tr @ [ReadExact c 4 (Inr [5, ?cmd, rsv, ?at]), ReadExact c ?n (Inr (octets ip @ ?pb))])"
      using parse at r1(1) r2(1) al unfolding gw_read_request_def Let_def io_bind_def
      by (simp add: bs Ip)
    then show ?thesis by (auto simp: bs Ip)
  qed
qed

interpretation gw_request: frame_reader gw_read_request request_ok Request_to_bytes header_canon
proof
  fix c :: conn and env d
  show "emits (is_read c) (gw_read_request env c d)"
    unfolding gw_read_request_def Let_def
    by (intro emits_bind emits_if emits_gw_calls emits_pure) (auto split: prod.split intro!: emits_bind emits_gw_calls emits_pure)
qed (rule gw_read_request_sound gw_read_request_complete, assumption+)+

end
