(* ===== verification/Gateway_Session.thy ===== *)
theory Gateway_Session
  imports Gateway_Handler
begin

text \<open>
  What a gateway session does with the world: which bytes it has read from its client
  before it does anything on the client's behalf, what it answers, how it talks to the node,
  and what it counts.
\<close>

section \<open>The preamble\<close>

definition talks_to :: "conn \<Rightarrow> Event \<Rightarrow> bool" where
  "talks_to c e \<longleftrightarrow> (\<exists>n r. e = ReadExact c n r) \<or> (\<exists>bs r. e = WriteAll c bs r)"

lemma talks_to_simps [simp]:
  "talks_to c (ReadExact c' n r) \<longleftrightarrow> c' = c" "talks_to c (WriteAll c' bs w) \<longleftrightarrow> c' = c"
  "\<not> talks_to c (Post call p)" "\<not> talks_to c (ConnectTo a k)" "\<not> talks_to c (CopyBidirectional x y z)"
  "\<not> talks_to c (Metric m)"
  by (auto simp: talks_to_def)

lemma is_read_talks_to: "is_read c e \<Longrightarrow> talks_to c e"
  by (auto simp: is_read_def)

lemma talks_elsewhere:
  "\<forall>e \<in> set evs. talks_to c e \<Longrightarrow> s \<noteq> c \<Longrightarrow> received s evs = [] \<and> sent s evs = []"
proof (induction evs)
  case (Cons e evs)
  then have "received_by s e = [] \<and> sent_by s e = []"
    by (cases "(s, e)" rule: received_by.cases; cases "(s, e)" rule: sent_by.cases) (auto simp: talks_to_def)
  with Cons show ?case by simp
qed simp

lemma emits_mono: "emits P m \<Longrightarrow> (\<And>e. P e \<Longrightarrow> Q e) \<Longrightarrow> emits Q m"
  unfolding emits_def by meson

text \<open>What the client must have sent to be let in, and what it was answered.\<close>

definition auth_frames :: "(string \<times> string) option \<Rightarrow> bytes" where
  "auth_frames auth = (case auth of None \<Rightarrow> []
     | Some (u, p) \<Rightarrow> UsernamePassword_to_vec \<lparr>up_username = u, up_password = p\<rparr>)"

definition auth_answers :: "(string \<times> string) option \<Rightarrow> bytes" where
  "auth_answers auth = (case auth of None \<Rightarrow> [VERSION, method_NO_AUTH]
     | Some _ \<Rightarrow> [VERSION, method_USER_PASS, AUTH_VERSION, auth_SUCCESS])"

definition admits :: "(string \<times> string) option \<Rightarrow> Greeting \<Rightarrow> bool" where
  "admits auth g \<longleftrightarrow> greeting_ok g \<and> (case auth of
     None \<Rightarrow> method_NO_AUTH \<in> set (gr_methods g)
   | Some (u, p) \<Rightarrow> method_USER_PASS \<in> set (gr_methods g) \<and> credential_ok \<lparr>up_username = u, up_password = p\<rparr>)"

lemma gw_auth_talks: "emits (talks_to c) (gw_handle_user_pass_auth env c ctx)"
  unfolding gw_handle_user_pass_auth_def Let_def
  by (intro emits_bind emits_if emits_gw_calls emits_pure emits_mono [OF gw_credentials.only_reads is_read_talks_to]) simp_all

lemma gw_authenticate_talks: "emits (talks_to c) (gw_authenticate env c ctx)"
  unfolding gw_authenticate_def Let_def
  by (intro emits_bind emits_if emits_gw_calls emits_pure gw_auth_talks
      emits_mono [OF gw_greeting.only_reads is_read_talks_to]) simp_all

lemma gw_accept_talks: "emits (talks_to c) (gw_accept_request env c d)"
  unfolding gw_accept_request_def
  by (intro emits_bind emits_if emits_gw_calls emits_pure
      emits_mono [OF gw_request.only_reads is_read_talks_to]) simp_all

lemma gw_auth_sound:
  assumes "reads_exact env" "gw_handle_user_pass_auth env c ctx tr = (Inr u, tr')"
  obtains user pass evs where "gc_auth ctx = Some (user, pass)" "tr' = tr @ evs"
    "credential_ok \<lparr>up_username = user, up_password = pass\<rparr>"
    "received c evs = UsernamePassword_to_vec \<lparr>up_username = user, up_password = pass\<rparr>"
    "sent c evs = [AUTH_VERSION, auth_SUCCESS]"
proof -
  from assms(2) obtain cred tr1 where read: "gw_read_credentials env c (gc_connect_timeout ctx) tr = (Inr cred, tr1)"
    and auth: "gc_auth ctx = Some (up_username cred, up_password cred)"
    and wr: "gw_write_all_timeout env c (auth_reply_bytes auth_SUCCESS) (gc_connect_timeout ctx) tr1 = (Inr (), tr')"
    unfolding gw_handle_user_pass_auth_def Let_def
    by (cases "gc_auth ctx"; cases "the (gc_auth ctx)") (auto simp: io_bind_eq_Inr split: if_splits)
  obtain evs where evs: "tr1 = tr @ evs" "credential_ok cred" "id (received c evs) = UsernamePassword_to_vec cred"
      "sent c evs = []"
    using gw_credentials.read_frame [OF assms(1) read] by metis
  obtain user pass where cred: "cred = \<lparr>up_username = user, up_password = pass\<rparr>" by (cases cred) blast
  show thesis
    using that [of user pass "evs @ [WriteAll c (auth_reply_bytes auth_SUCCESS) (Inr ())]"]
      gw_write_Inr [OF wr] auth evs cred
    by (simp add: auth_reply_bytes_def)
qed

lemma gw_authenticate_sound:
  assumes "reads_exact env" "gw_authenticate env c ctx tr = (Inr u, tr')"
  obtains g evs where "admits (gc_auth ctx) g" "tr' = tr @ evs"
    "received c evs = greeting_bytes g @ auth_frames (gc_auth ctx)" "sent c evs = auth_answers (gc_auth ctx)"
proof -
  let ?m = "\<lambda>g. negotiate g (gc_auth ctx \<noteq> None) (gc_auth ctx = None)"
  from assms(2) obtain g tr1 tr2 where read: "gw_read_greeting env c (gc_connect_timeout ctx) tr = (Inr g, tr1)"
    and wr: "gw_write_all_timeout env c (MethodSelection_to_bytes (?m g)) (gc_connect_timeout ctx) tr1 = (Inr (), tr2)"
    and m: "ms_method (?m g) \<noteq> method_NO_ACCEPTABLE"
    and auth: "if ms_method (?m g) = method_USER_PASS then gw_handle_user_pass_auth env c ctx tr2 = (Inr (), tr') else tr' = tr2"
    unfolding gw_authenticate_def Let_def by (auto simp: io_bind_eq_Inr split: if_splits)
  obtain evs where evs: "tr1 = tr @ evs" "greeting_ok g" "id (received c evs) = greeting_bytes g" "sent c evs = []"
    using gw_greeting.read_frame [OF assms(1) read] by metis
  have tr2: "tr2 = tr1 @ [WriteAll c (MethodSelection_to_bytes (?m g)) (Inr ())]" using gw_write_Inr [OF wr] .
  show thesis
  proof (cases "gc_auth ctx")
    case None
    then show thesis
      using that [of g "evs @ [WriteAll c (MethodSelection_to_bytes (?m g)) (Inr ())]"] evs tr2 m auth
      by (auto simp: negotiate_cases admits_def auth_frames_def auth_answers_def MethodSelection_to_bytes_def split: if_splits)
  next
    case (Some a)
    then have m': "ms_method (?m g) = method_USER_PASS" "method_USER_PASS \<in> set (gr_methods g)"
      using m by (auto simp: negotiate_cases split: if_splits)
    then have "gw_handle_user_pass_auth env c ctx tr2 = (Inr (), tr')" using auth by simp
    from gw_auth_sound [OF assms(1) this] obtain user pass evs2 where 2: "gc_auth ctx = Some (user, pass)" "tr' = tr2 @ evs2"
      "credential_ok \<lparr>up_username = user, up_password = pass\<rparr>"
      "received c evs2 = UsernamePassword_to_vec \<lparr>up_username = user, up_password = pass\<rparr>"
      "sent c evs2 = [AUTH_VERSION, auth_SUCCESS]" .
    then show thesis
      using that [of g "evs @ WriteAll c (MethodSelection_to_bytes (?m g)) (Inr ()) # evs2"] evs tr2 m'
      by (simp add: admits_def auth_frames_def auth_answers_def MethodSelection_to_bytes_def)
  qed
qed

lemma gw_accept_sound:
  assumes "reads_exact env" "gw_accept_request env c d tr = (Inr q, tr')"
  obtains evs where "request_ok q" "rq_command q = Connect" "tr' = tr @ evs"
    "header_canon (received c evs) = Request_to_bytes q" "sent c evs = []"
proof -
  from assms(2) have "gw_read_request env c d tr = (Inr q, tr')" "rq_command q = Connect"
    unfolding gw_accept_request_def by (auto simp: io_bind_eq_Inr split: if_splits)
  then show thesis using gw_request.read_frame [OF assms(1)] that by metis
qed

text \<open>And the preamble succeeds for a client that sends these frames.\<close>

lemma gw_authenticate_complete:
  assumes env: "accepts env c" "delivers env c inbox" and g: "admits (gc_auth ctx) g"
    and p: "pending c inbox tr = greeting_bytes g @ auth_frames (gc_auth ctx) @ rest"
  obtains evs where "gw_authenticate env c ctx tr = (Inr (), tr @ evs)"
    "received c evs = greeting_bytes g @ auth_frames (gc_auth ctx)" "sent c evs = auth_answers (gc_auth ctx)"
    "pending c inbox (tr @ evs) = rest"
proof -
  let ?m = "negotiate g (gc_auth ctx \<noteq> None) (gc_auth ctx = None)" and ?dt = "gc_connect_timeout ctx"
  let ?w = "WriteAll c (MethodSelection_to_bytes ?m) (Inr ())"
  have "greeting_ok g" using g by (simp add: admits_def)
  from gw_greeting.read_delivered [OF env(2) p this] obtain evs where
    1: "gw_read_greeting env c ?dt tr = (Inr g, tr @ evs)" "received c evs = greeting_bytes g"
      "pending c inbox (tr @ evs) = auth_frames (gc_auth ctx) @ rest" "sent c evs = []" by (metis id_apply)
  have p1: "pending c inbox (tr @ evs @ [?w]) = auth_frames (gc_auth ctx) @ rest"
    using 1(3) pending_other [of c "[?w]" inbox "tr @ evs"] by simp
  have wr: "gw_write_all_timeout env c (MethodSelection_to_bytes ?m) ?dt (tr @ evs) = (Inr (), tr @ evs @ [?w])"
    using gw_write_accepted [OF env(1)] by simp
  show thesis
  proof (cases "gc_auth ctx")
    case None
    then have "ms_method ?m = method_NO_AUTH" using g by (simp add: negotiate_cases admits_def)
    then show thesis using that [of "evs @ [?w]"] 1 wr p1 None
      by (simp add: gw_authenticate_def io_bind_def Let_def auth_frames_def auth_answers_def MethodSelection_to_bytes_def)
  next
    case (Some a)
    obtain u w where a: "a = (u, w)" by fastforce
    let ?c = "\<lparr>up_username = u, up_password = w\<rparr>" and ?s = "WriteAll c (auth_reply_bytes auth_SUCCESS) (Inr ())"
    have m: "ms_method ?m = method_USER_PASS" and "credential_ok ?c"
      using g Some a by (simp_all add: negotiate_cases admits_def)
    moreover have "pending c inbox (tr @ evs @ [?w]) = UsernamePassword_to_vec ?c @ rest"
      using p1 Some a by (simp add: auth_frames_def)
    ultimately obtain evs2 where 2: "gw_read_credentials env c ?dt (tr @ evs @ [?w]) = (Inr ?c, (tr @ evs @ [?w]) @ evs2)"
        "received c evs2 = UsernamePassword_to_vec ?c" "pending c inbox ((tr @ evs @ [?w]) @ evs2) = rest" "sent c evs2 = []"
      using gw_credentials.read_delivered [OF env(2)] by (metis id_apply)
    have "gw_authenticate env c ctx tr = (Inr (), tr @ evs @ [?w] @ evs2 @ [?s])"
      using 1(1) 2(1) wr m Some a gw_write_accepted [OF env(1)]
      by (simp add: gw_authenticate_def gw_handle_user_pass_auth_def io_bind_def Let_def)
    then show thesis
      using that [of "evs @ [?w] @ evs2 @ [?s]"] 1 2 m Some a pending_other [of c "[?s]" inbox "tr @ evs @ [?w] @ evs2"]
      by (simp add: auth_frames_def auth_answers_def MethodSelection_to_bytes_def auth_reply_bytes_def)
  qed
qed

lemma gw_accept_complete:
  assumes "delivers env c inbox" "request_ok q" "rq_command q = Connect"
    and "pending c inbox tr = frame @ rest" "header_canon frame = Request_to_bytes q"
  obtains evs where "gw_accept_request env c d tr = (Inr q, tr @ evs)" "received c evs = frame" "sent c evs = []"
    "pending c inbox (tr @ evs) = rest"
proof -
  obtain evs where evs: "gw_read_request env c d tr = (Inr q, tr @ evs)" "received c evs = frame"
      "pending c inbox (tr @ evs) = rest" "sent c evs = []"
    using gw_request.read_delivered [OF assms(1,4,2,5)] by metis
  show thesis
    using that [OF _ evs(2,4,3)] evs(1) assms(3) by (simp add: gw_accept_request_def io_bind_def)
qed

section \<open>Serving the request\<close>

definition select_call :: "GatewayContext \<Rightarrow> HttpCall" where
  "select_call ctx = authed (gc_client ctx) (cl_base_url (gc_client ctx) @ ''/nodes/select'') NoPayload"

lemma snd_gw_select: "snd (gw_select_node env d (gc_client ctx) tr) = tr @ [Post (select_call ctx) (env_post_within env tr d (select_call ctx))]"
  by (auto simp: gw_select_node_def io_bind_def io_map_err_def post_within_def Let_def select_call_def map_err_def
      split: sum.split prod.split if_splits)

lemma bind_extends:
  assumes "\<And>x. emits (\<lambda>_. True) (f x)"
  shows "\<exists>evs. snd (io_bind m f tr) = snd (m tr) @ evs"
proof (cases "m tr")
  case (Pair r tr1)
  then show ?thesis using assms by (cases r) (auto simp: io_bind_def emits_def)
qed

lemma emits_any: "emits (\<lambda>_. True) (gw_read_exact_timeout env c n d)" "emits (\<lambda>_. True) (gw_write_all_timeout env c bs d)"
  "emits (\<lambda>_. True) (gw_try_reply env c code d)" "emits (\<lambda>_. True) (connect_to env d a)"
  "emits (\<lambda>_. True) (copy_bidirectional env d x y)" "emits (\<lambda>_. True) (emit ms)"
  by (simp_all add: emits_gw_calls emits_calls)

lemma gw_try_reply_eq:
  "gw_try_reply env c code d tr = (Inr (), tr @ [WriteAll c (reply_bytes code) (env_write env tr c d (reply_bytes code))])"
  by (simp add: gw_try_reply_def gw_write_all_timeout_def io_map_err_def write_all_def Let_def)

lemma reply_and_fail_extends: "\<exists>evs. snd (io_bind (gw_try_reply env c code d) (\<lambda>_. io_fail e) tr) = tr @ evs"
  by (simp add: io_bind_def gw_try_reply_eq)

lemma gw_pick_first: "\<exists>evs. snd (gw_pick_node env c ctx tr) = tr @ Post (select_call ctx) (env_post_within env tr (gc_connect_timeout ctx) (select_call ctx)) # evs"
proof -
  let ?d = "gc_connect_timeout ctx"
  obtain r tr1 where sel: "gw_select_node env ?d (gc_client ctx) tr = (r, tr1)" by fastforce
  have tr1: "tr1 = tr @ [Post (select_call ctx) (env_post_within env tr ?d (select_call ctx))]"
    using snd_gw_select [of env ?d ctx tr] sel by simp
  show ?thesis
    using sel tr1 reply_and_fail_extends [of env c _ ?d _ tr1]
    by (auto simp: gw_pick_node_def Let_def split: sum.split timed.split)
qed

lemma emits_chain: "emits (\<lambda>_. True) (connect_and_chain env a q d)"
  unfolding connect_and_chain_def read_node_reply_def node_addr_len_def
  by (intro emits_bind emits_if emits_any emits_pure) (simp add: emits_any)

lemma emits_relay: "emits (\<lambda>_. True) (relay env x y d)"
  unfolding relay_def by (intro emits_bind) (auto simp: emits_any)

lemma gw_serve_first: "\<exists>p evs. snd (gw_serve env c ctx q tr) = tr @ Post (select_call ctx) p # evs"
proof -
  have "\<exists>evs. snd (gw_serve env c ctx q tr) = snd (gw_pick_node env c ctx tr) @ evs"
    unfolding gw_serve_def Let_def by (intro bind_extends emits_bind emits_any emits_chain emits_relay)
  then show ?thesis using gw_pick_first [of env c ctx tr] by auto
qed

section \<open>The chained connection\<close>

text \<open>What the gateway takes off the node's stream beyond the node's reply.\<close>

definition overread :: "Reply \<Rightarrow> bytes \<Rightarrow> bytes" where
  "overread p data = (case sa_host (rp_bind_addr p) of Domain _ \<Rightarrow> take 1 data | Ip _ \<Rightarrow> [])"

definition covers_overread :: "Reply \<Rightarrow> bytes \<Rightarrow> bool" where
  "covers_overread p data \<longleftrightarrow> (case sa_host (rp_bind_addr p) of Domain _ \<Rightarrow> data \<noteq> [] | Ip _ \<Rightarrow> True)"

lemma read_node_reply_complete:
  assumes env: "delivers env s inbox" and p: "reply_ok p" "covers_overread p data"
    and pend: "pending s inbox tr = Reply_to_bytes p @ data"
  shows "\<exists>evs. read_node_reply env s d tr = (Inr (rp_code p), tr @ evs) \<and> received s evs = Reply_to_bytes p @ overread p data"
proof -
  let ?h = "sa_host (rp_bind_addr p)" and ?pb = "port_bytes (sa_port (rp_bind_addr p))"
  have bytes: "Reply_to_bytes p = [5, rp_code p, 0, host_atyp ?h] @ host_bytes ?h @ ?pb"
    using Reply_to_bytes_eq [OF p(1)] by simp
  show ?thesis
  proof (cases ?h)
    case (Domain name)
    let ?l = "len_as_u8 (length name)"
    obtain b data' where data: "data = b # data'" using p(2) Domain by (cases data) (auto simp: covers_overread_def)
    have l: "unat ?l = length name" using p(1) Domain by (simp add: reply_ok_def len_as_u8_eq)
    have "pending s inbox tr = [5, rp_code p, 0, 3] @ [?l] @ (as_bytes name @ ?pb @ [b]) @ data'"
      using pend by (simp add: bytes Domain data)
    note r1 = gw_read_delivered [OF env this, of 4]
    note r2 = gw_read_delivered [OF env r1(2), of "Suc 0"]
    note r3 = gw_read_delivered [OF env r2(2), of "length name + 3", unfolded append_assoc append.simps]
    have "read_node_reply env s d tr = (Inr (rp_code p), tr @ [ReadExact s 4 (Inr [5, rp_code p, 0, 3]),
        ReadExact s (Suc 0) (Inr [?l]), ReadExact s (length name + 3) (Inr (as_bytes name @ ?pb @ [b]))])"
      using r1(1) r2(1) r3(1) l by (simp add: read_node_reply_def node_addr_len_def io_bind_def numeral_3_eq_3)
    then show ?thesis by (auto simp: bytes Domain overread_def data)
  next
    case (Ip ip)
    let ?n = "length (octets ip) + 2" and ?at = "host_atyp (Ip ip)"
    have len: "node_addr_len env s d ?at = io_return ?n"
      using p(1) Ip by (cases ip) (auto simp: node_addr_len_def reply_ok_def intro!: arg_cong [where f = io_return])
    have "pending s inbox tr = [5, rp_code p, 0, ?at] @ (octets ip @ ?pb) @ data" using pend by (simp add: bytes Ip)
    note r1 = gw_read_delivered [OF env this, of 4]
    note r2 = gw_read_delivered [OF env r1(2), of ?n]
    have "read_node_reply env s d tr = (Inr (rp_code p), tr @ [ReadExact s 4 (Inr [5, rp_code p, 0, ?at]),
        ReadExact s ?n (Inr (octets ip @ ?pb))])"
      using r1(1) r2(1) len by (simp add: read_node_reply_def io_bind_def)
    then show ?thesis by (auto simp: bytes Ip overread_def)
  qed
qed

lemma read_node_reply_reads: "emits (is_read s) (read_node_reply env s d)"
  unfolding read_node_reply_def node_addr_len_def by (intro emits_bind emits_if emits_gw_calls emits_pure) simp_all

lemma connect_and_chain_complete:
  assumes conn: "env_connect env tr d addr = Inr s" and env: "accepts env s" "delivers env s inbox"
    and p: "reply_ok p" "covers_overread p data"
    and pend: "pending s inbox tr = [5, 0] @ Reply_to_bytes p @ data"
  obtains evs where "connect_and_chain env addr dest d tr =
      (if rp_code p = reply_SUCCESS then Inr s
       else Inl (GwRelay (''node CONNECT failed (reply '' @ hex04 (rp_code p) @ '')'')), tr @ evs)"
    "received s evs = [5, 0] @ Reply_to_bytes p @ overread p data"
    "sent s evs = [5, 1, 0] @ Request_to_bytes \<lparr>rq_command = Connect, rq_addr = dest\<rparr>"
    "\<forall>c. c \<noteq> s \<longrightarrow> sent c evs = [] \<and> received c evs = []" "ConnectTo addr (Inr s) \<in> set evs"
proof -
  let ?q = "Request_to_bytes \<lparr>rq_command = Connect, rq_addr = dest\<rparr>"
  let ?e1 = "[ConnectTo addr (Inr s), WriteAll s [5, 1, 0] (Inr ())]"
  let ?e2 = "[ReadExact s 2 (Inr [5, 0]), WriteAll s ?q (Inr ())]"
  have "pending s inbox (tr @ ?e1) = [5, 0] @ (Reply_to_bytes p @ data)" using pend pending_other [of s ?e1] by simp
  note sel = gw_read_delivered [OF env(2) this, of 2]
  have "pending s inbox ((tr @ ?e1) @ ?e2) = Reply_to_bytes p @ data"
    using pending_append [of s inbox "tr @ ?e1" ?e2 "Reply_to_bytes p @ data"] \<open>pending s inbox (tr @ ?e1) = _\<close> by simp
  from read_node_reply_complete [OF env(2) p this] obtain evs where
    3: "read_node_reply env s d ((tr @ ?e1) @ ?e2) = (Inr (rp_code p), ((tr @ ?e1) @ ?e2) @ evs)"
      "received s evs = Reply_to_bytes p @ overread p data" by blast
  have reads: "\<forall>e \<in> set evs. is_read s e"
    using emitsD [OF read_node_reply_reads 3(1)] by (metis same_append_eq)
  have "connect_and_chain env addr dest d tr =
      (if rp_code p = reply_SUCCESS then Inr s
       else Inl (GwRelay (''node CONNECT failed (reply '' @ hex04 (rp_code p) @ '')'')), tr @ ?e1 @ ?e2 @ evs)"
    using conn sel(1) 3(1) gw_write_accepted [OF env(1)]
    by (simp add: connect_and_chain_def io_bind_def io_map_err_def connect_to_def Let_def)
  then show thesis
    by (rule that) (use 3(2) reads_send_nothing [OF reads] reads_elsewhere [OF reads] in auto)
qed

section \<open>What a session says and counts\<close>

lemma emits_pick: "(\<And>call r. P (Post call r)) \<Longrightarrow> (\<And>bs r. P (WriteAll c bs r)) \<Longrightarrow> emits P (gw_pick_node env c ctx)"
  unfolding emits_def
proof
  fix tr
  assume P: "\<And>call r. P (Post call r)" "\<And>bs r. P (WriteAll c bs r)"
  obtain r tr1 where sel: "gw_select_node env (gc_connect_timeout ctx) (gc_client ctx) tr = (r, tr1)" by fastforce
  then show "\<exists>evs. snd (gw_pick_node env c ctx tr) = tr @ evs \<and> (\<forall>e \<in> set evs. P e)"
    using P snd_gw_select [of env "gc_connect_timeout ctx" ctx tr]
    by (auto simp: gw_pick_node_def Let_def io_bind_def gw_try_reply_eq split: sum.split timed.split)
qed

lemma emits_chain_to:
  assumes "\<And>r. P (ConnectTo addr r)"
    and "\<And>tr s. env_connect env tr d addr = Inr s \<Longrightarrow> (\<forall>n r. P (ReadExact s n r)) \<and> (\<forall>bs r. P (WriteAll s bs r))"
  shows "emits P (connect_and_chain env addr dest d)"
  unfolding connect_and_chain_def
proof (rule emits_bind_Inr)
  fix s tr tr'
  assume "io_map_err (\<lambda>f. case f of Elapsed \<Rightarrow> GwTimeout (''node connect timed out ('' @ addr @ '')'') | Done e \<Rightarrow> GwIo e)
      (connect_to env d addr) tr = (Inr s, tr')"
  then have "env_connect env tr d addr = Inr s" by (simp add: connect_to_def Let_def)
  note s = assms(2) [OF this]
  show "emits P (io_bind (gw_write_all_timeout env s [VERSION, 1, 0] d) (\<lambda>_.
     io_bind (gw_read_exact_timeout env s 2 d) (\<lambda>sel.
     if sel ! 0 \<noteq> VERSION then io_fail (GwProtocol (''node selection version '' @ hex04 (sel ! 0)))
     else if sel ! 1 \<noteq> method_NO_AUTH then
       io_fail (GwProtocol (''node rejected NO_AUTH (got '' @ hex04 (sel ! 1) @ '')''))
     else
     io_bind (gw_write_all_timeout env s (Request_to_bytes \<lparr>rq_command = Connect, rq_addr = dest\<rparr>) d) (\<lambda>_.
     io_bind (read_node_reply env s d) (\<lambda>rep.
     if rep \<noteq> reply_SUCCESS then io_fail (GwRelay (''node CONNECT failed (reply '' @ hex04 rep @ '')''))
     else io_return s)))))"
    using s by (intro emits_bind emits_if emits_gw_calls emits_pure emits_mono [OF read_node_reply_reads])
      (auto simp: is_read_def)
qed (simp add: assms(1) emits_calls)

definition counts_bytes :: "Event \<Rightarrow> bool" where
  "counts_bytes e \<longleftrightarrow> (\<forall>m. e = Metric m \<longrightarrow>
     (\<exists>n. m = CounterAdd ''proxy_bytes_up_total'' n \<or> m = CounterAdd ''proxy_bytes_down_total'' n))"

lemma counts_bytes_simps [simp]:
  "counts_bytes (ReadExact c n r)" "counts_bytes (WriteAll c bs w)" "counts_bytes (Post call p)"
  "counts_bytes (ConnectTo a k)" "counts_bytes (CopyBidirectional x y z)"
  by (simp_all add: counts_bytes_def)

lemma run_counts_bytes: "emits counts_bytes (gw_run_with_ctx env c ctx)"
proof -
  have talks: "talks_to c e \<Longrightarrow> counts_bytes e" for e by (auto simp: talks_to_def)
  have relay: "emits counts_bytes (relay env c s d)" for s d
    unfolding relay_def by (intro emits_bind) (auto simp: emits_calls)
  show ?thesis
    unfolding gw_run_with_ctx_def gw_serve_def Let_def
    by (intro emits_bind emits_mono [OF gw_authenticate_talks talks] emits_mono [OF gw_accept_talks talks] emits_pick
        emits_chain_to emits_gw_calls relay emits_calls(7))
      (auto simp: counts_bytes_def gw_record_bytes_up_def gw_record_bytes_down_def)
qed

fun gauge_by :: "string \<Rightarrow> Event \<Rightarrow> rat" where
  "gauge_by name (Metric (GaugeAdd n x)) = (if n = name then x else 0)"
| "gauge_by name _ = 0"

fun counter_by :: "string \<Rightarrow> Event \<Rightarrow> u64" where
  "counter_by name (Metric (CounterAdd n x)) = (if n = name then x else 0)"
| "counter_by name _ = 0"

definition gauge :: "string \<Rightarrow> trace \<Rightarrow> rat" where
  "gauge name tr = sum_list (map (gauge_by name) tr)"

definition counter :: "string \<Rightarrow> trace \<Rightarrow> u64" where
  "counter name tr = sum_list (map (counter_by name) tr)"

lemma totals_simps [simp]:
  "gauge n [] = 0" "gauge n (e # tr) = gauge_by n e + gauge n tr" "gauge n (tr @ tr') = gauge n tr + gauge n tr'"
  "counter n [] = 0" "counter n (e # tr) = counter_by n e + counter n tr" "counter n (tr @ tr') = counter n tr + counter n tr'"
  by (simp_all add: gauge_def counter_def)

lemma bytes_only:
  assumes "\<forall>e \<in> set evs. counts_bytes e" "name \<notin> {''proxy_bytes_up_total'', ''proxy_bytes_down_total''}"
  shows "gauge n evs = 0 \<and> counter name evs = 0"
  using assms(1)
proof (induction evs)
  case (Cons e evs)
  then have "gauge_by n e = 0 \<and> counter_by name e = 0"
    using assms(2) by (cases "(n, e)" rule: gauge_by.cases; cases "(name, e)" rule: counter_by.cases)
      (auto simp: counts_bytes_def)
  with Cons show ?case by simp
qed simp

section \<open>A whole session\<close>

text \<open>A peer that behaves: the client's preamble, the control plane's answer, and the node's.\<close>

definition honest_client :: "Env \<Rightarrow> conn \<Rightarrow> (string \<times> string) option \<Rightarrow> Greeting \<Rightarrow> Request \<Rightarrow> bytes \<Rightarrow> bool" where
  "honest_client env c auth g q rest \<longleftrightarrow> accepts env c \<and> admits auth g \<and> request_ok q \<and> rq_command q = Connect \<and>
     delivers env c (greeting_bytes g @ auth_frames auth @ Request_to_bytes q @ rest)"

definition working_node :: "Env \<Rightarrow> conn \<Rightarrow> string \<Rightarrow> Reply \<Rightarrow> bytes \<Rightarrow> bool" where
  "working_node env s addr p data \<longleftrightarrow> accepts env s \<and> reply_ok p \<and> covers_overread p data \<and>
     (\<forall>tr d. env_connect env tr d addr = Inr s) \<and> delivers env s ([5, 0] @ Reply_to_bytes p @ data)"

definition control_plane_answers :: "Env \<Rightarrow> SelectResponse \<Rightarrow> bool" where
  "control_plane_answers env n \<longleftrightarrow>
     (\<forall>tr d call. \<exists>resp. env_post_within env tr d call = Inr resp \<and> hr_status resp = 200 \<and> hr_json resp = Inr n)"

lemma header_canon_Request: "request_ok q \<Longrightarrow> header_canon (Request_to_bytes q) = Request_to_bytes q"
  by (simp add: Request_to_bytes_eq)

lemma gw_pick_complete:
  assumes "control_plane_answers env n"
  obtains p where "gw_pick_node env c ctx tr =
    (Inr \<lparr>rn_id = sr_id n, rn_forward_address = sr_address n\<rparr>, tr @ [Post (select_call ctx) p])"
proof -
  let ?d = "gc_connect_timeout ctx"
  obtain resp where resp: "env_post_within env tr ?d (select_call ctx) = Inr resp" "hr_status resp = 200" "hr_json resp = Inr n"
    using assms unfolding control_plane_answers_def by blast
  have "gw_select_node env ?d (gc_client ctx) tr =
      (Inr \<lparr>rn_id = sr_id n, rn_forward_address = sr_address n\<rparr>, tr @ [Post (select_call ctx) (Inr resp)])"
    using resp unfolding gw_select_node_def select_call_def [symmetric]
    by (simp add: io_bind_def io_map_err_def post_within_def Let_def is_success_def)
  then show thesis using that by (simp add: gw_pick_node_def)
qed

lemma gw_serve_complete:
  assumes cp: "control_plane_answers env n" and node: "working_node env s (sr_address n) p data" "rp_code p = reply_SUCCESS"
    and c: "accepts env c" "s \<noteq> c" and fresh: "received s tr = []"
    and copy: "\<And>tr d. env_copy env tr d c s = Inr (up, down)"
  obtains evs where "gw_serve env c ctx q tr = (Inr (), tr @ evs)" "received c evs = []" "sent c evs = reply_bytes reply_SUCCESS"
    "received s evs = [5, 0] @ Reply_to_bytes p @ overread p data"
    "sent s evs = [5, 1, 0] @ Request_to_bytes \<lparr>rq_command = Connect, rq_addr = rq_addr q\<rparr>"
    "CopyBidirectional c s (Inr (up, down)) \<in> set evs" "ConnectTo (sr_address n) (Inr s) \<in> set evs"
proof -
  let ?dt = "gc_connect_timeout ctx" and ?inbox = "[5, 0] @ Reply_to_bytes p @ data"
  obtain x where pick: "gw_pick_node env c ctx tr =
      (Inr \<lparr>rn_id = sr_id n, rn_forward_address = sr_address n\<rparr>, tr @ [Post (select_call ctx) x])"
    using gw_pick_complete [OF cp] .
  let ?tr = "tr @ [Post (select_call ctx) x]"
  have "env_connect env ?tr ?dt (sr_address n) = Inr s" "accepts env s" "delivers env s ?inbox" "reply_ok p"
      "covers_overread p data" "pending s ?inbox ?tr = [5, 0] @ Reply_to_bytes p @ data"
    using node(1) fresh by (simp_all add: working_node_def pending_def)
  from connect_and_chain_complete [OF this, of "rq_addr q"] obtain evs where
    chain: "connect_and_chain env (sr_address n) (rq_addr q) ?dt ?tr = (if rp_code p = reply_SUCCESS then Inr s
       else Inl (GwRelay (''node CONNECT failed (reply '' @ hex04 (rp_code p) @ '')'')), ?tr @ evs)"
    and evs: "received s evs = [5, 0] @ Reply_to_bytes p @ overread p data"
    "sent s evs = [5, 1, 0] @ Request_to_bytes \<lparr>rq_command = Connect, rq_addr = rq_addr q\<rparr>"
    "\<forall>c. c \<noteq> s \<longrightarrow> sent c evs = [] \<and> received c evs = []" "ConnectTo (sr_address n) (Inr s) \<in> set evs" .
  let ?post = "[WriteAll c (reply_bytes reply_SUCCESS) (Inr ()), CopyBidirectional c s (Inr (up, down)),
    Metric (CounterAdd ''proxy_bytes_up_total'' up), Metric (CounterAdd ''proxy_bytes_down_total'' down)]"
  have "gw_serve env c ctx q tr = (Inr (), tr @ (Post (select_call ctx) x # evs) @ ?post)"
    using pick chain copy node(2) gw_write_accepted [OF c(1)]
    by (simp add: gw_serve_def io_bind_def Let_def relay_def io_map_err_def copy_bidirectional_def emit_def
        gw_record_bytes_up_def gw_record_bytes_down_def)
  then show thesis by (rule that) (use evs c(2) in auto)
qed

lemma gw_run_complete:
  assumes client: "honest_client env c (gc_auth ctx) g q rest" and cp: "control_plane_answers env n"
    and node: "working_node env s (sr_address n) p data" "rp_code p = reply_SUCCESS" "s \<noteq> c"
    and copy: "\<And>tr d. env_copy env tr d c s = Inr (up, down)"
  obtains tr where "gw_run_with_ctx env c ctx [] = (Inr (), tr)"
    "received c tr = greeting_bytes g @ auth_frames (gc_auth ctx) @ Request_to_bytes q"
    "sent c tr = auth_answers (gc_auth ctx) @ reply_bytes reply_SUCCESS"
    "received s tr = [5, 0] @ Reply_to_bytes p @ overread p data"
    "sent s tr = [5, 1, 0] @ Request_to_bytes q"
    "CopyBidirectional c s (Inr (up, down)) \<in> set tr" "ConnectTo (sr_address n) (Inr s) \<in> set tr"
proof -
  let ?inbox = "greeting_bytes g @ auth_frames (gc_auth ctx) @ Request_to_bytes q @ rest"
  have h: "accepts env c" "delivers env c ?inbox" "admits (gc_auth ctx) g" "request_ok q" "rq_command q = Connect"
    using client by (simp_all add: honest_client_def)
  have q: "\<lparr>rq_command = Connect, rq_addr = rq_addr q\<rparr> = q" using h(5) by (cases q) simp
  from gw_authenticate_complete [OF h(1-3), of "[]"] obtain tr1 where 1: "gw_authenticate env c ctx [] = (Inr (), tr1)"
    "received c tr1 = greeting_bytes g @ auth_frames (gc_auth ctx)" "sent c tr1 = auth_answers (gc_auth ctx)"
    "pending c ?inbox tr1 = Request_to_bytes q @ rest" by (auto simp: pending_def)
  from gw_accept_complete [OF h(2,4,5) 1(4) header_canon_Request [OF h(4)]] obtain evs where
    2: "gw_accept_request env c (gc_connect_timeout ctx) tr1 = (Inr q, tr1 @ evs)" "received c evs = Request_to_bytes q"
    "sent c evs = []" by metis
  have talks: "\<forall>e \<in> set (tr1 @ evs). talks_to c e"
    using emitsD [OF gw_authenticate_talks 1(1)] emitsD [OF gw_accept_talks 2(1)]
    by (metis Un_iff append_Nil same_append_eq set_append)
  have quiet: "received s (tr1 @ evs) = []" "sent s (tr1 @ evs) = []" using talks_elsewhere [OF talks] node(3) by simp_all
  from gw_serve_complete [OF cp node(1,2) h(1) node(3) quiet(1) copy] obtain evs2 where
    3: "gw_serve env c ctx q (tr1 @ evs) = (Inr (), (tr1 @ evs) @ evs2)" "received c evs2 = []" "sent c evs2 = reply_bytes reply_SUCCESS"
    "received s evs2 = [5, 0] @ Reply_to_bytes p @ overread p data" "sent s evs2 = [5, 1, 0] @ Request_to_bytes q"
    "CopyBidirectional c s (Inr (up, down)) \<in> set evs2" "ConnectTo (sr_address n) (Inr s) \<in> set evs2" using q by metis
  have "gw_run_with_ctx env c ctx [] = (Inr (), (tr1 @ evs) @ evs2)"
    using 1(1) 2(1) 3(1) by (simp add: gw_run_with_ctx_def io_bind_def)
  then show thesis by (rule that) (use 1 2 3 quiet in auto)
qed

section \<open>A scripted world for the witnesses\<close>

definition script_env :: "(conn \<Rightarrow> bytes) \<Rightarrow> Env" where
  "script_env inbox = \<lparr>
     env_read = (\<lambda>tr c d n. let p = pending c (inbox c) tr in if n \<le> length p then Inr (take n p) else Inl Elapsed),
     env_write = (\<lambda>tr c d bs. Inr ()), env_connect = (\<lambda>tr d a. Inr 1), env_copy = (\<lambda>tr d a b. Inr (10, 20)),
     env_post_within = (\<lambda>tr d call. Inr \<lparr>hr_status = 200, hr_text = [], hr_json = Inr \<lparr>sr_id = ''n1'', sr_address = ''10.0.0.1:1080''\<rparr>\<rparr>),
     env_post = (\<lambda>tr call. Inr \<lparr>hr_status = 200, hr_text = [], hr_json = Inl ''none''\<rparr>),
     env_io_string = (\<lambda>e. ''io''), env_status_string = to_dec\<rparr>"

lemma script_env_ok:
  "reads_exact (script_env inbox)" "accepts (script_env inbox) c" "delivers (script_env inbox) c (inbox c)"
  "control_plane_answers (script_env inbox) \<lparr>sr_id = ''n1'', sr_address = ''10.0.0.1:1080''\<rparr>"
  "env_copy (script_env inbox) tr d a b = Inr (10, 20)" "env_connect (script_env inbox) tr d addr = Inr 1"
  by (auto simp: script_env_def reads_exact_def accepts_def delivers_def control_plane_answers_def Let_def split: if_splits)

definition sample_ctx :: GatewayContext where
  "sample_ctx = \<lparr>gc_client = ControlPlaneClient_new ''http://cp:8080/'' None, gc_auth = Some (''u'', ''p''),
     gc_connect_timeout = from_secs 10, gc_idle_timeout = from_secs 300\<rparr>"

definition sample_connect :: Request where
  "sample_connect = \<lparr>rq_command = Connect, rq_addr = \<lparr>sa_host = Domain ''ab'', sa_port = 80\<rparr>\<rparr>"

definition sample_inbox :: "conn \<Rightarrow> bytes" where
  "sample_inbox c = (if c = 0 then greeting_bytes \<lparr>gr_methods = [0, 2]\<rparr> @ auth_frames (gc_auth sample_ctx) @ Request_to_bytes sample_connect @ [7]
     else [5, 0] @ Reply_to_bytes (simple_reply 0) @ [9])"

lemma sample_honest: "honest_client (script_env sample_inbox) 0 (gc_auth sample_ctx) \<lparr>gr_methods = [0, 2]\<rparr> sample_connect [7]"
  using script_env_ok(3) [of sample_inbox 0]
  by (simp add: honest_client_def script_env_ok admits_def sample_ctx_def greeting_ok_def credential_ok_def is_rust_string_ascii
      sample_connect_def request_ok_def sample_inbox_def)

lemma sample_works: "working_node (script_env sample_inbox) 1 a (simple_reply 0) [9]"
  using script_env_ok(3) [of sample_inbox 1]
  by (simp add: working_node_def script_env_ok reply_ok_def simple_reply_def covers_overread_def sample_inbox_def)

lemma sample_run:
  obtains tr where "gw_run_with_ctx (script_env sample_inbox) 0 sample_ctx [] = (Inr (), tr)"
    "CopyBidirectional 0 1 (Inr (10, 20)) \<in> set tr" "ConnectTo ''10.0.0.1:1080'' (Inr 1) \<in> set tr"
  using gw_run_complete [OF sample_honest script_env_ok(4) sample_works, of 10 20]
  by (auto simp: simple_reply_def script_env_ok)

section \<open>Properties\<close>

text \<open>
  C2. The gateway acts only for clients it has let in. Whatever the network does, if a session does
  anything but talk to its client, then it first read from the client exactly a greeting that offers the
  required method, the configured username and password when the gateway has some, and a CONNECT request
  (any reserved byte), and answered the negotiation accordingly. Up to that point it did nothing but talk to
  the client, the next thing it did was to ask the control plane for a node, and whatever else it did (the
  event \<open>ev\<close>) is that question or came after it.
\<close>

theorem gateway_acts_for_admitted_clients:
  assumes "reads_exact env" and run: "gw_run_with_ctx env c ctx [] = (r, tr)" and "ev \<in> set tr" "\<not> talks_to c ev"
  shows "\<exists>pre post p g q frame. tr = pre @ Post (select_call ctx) p # post \<and>
    (\<forall>e \<in> set pre. talks_to c e) \<and> ev \<in> set (Post (select_call ctx) p # post) \<and> admits (gc_auth ctx) g \<and>
    request_ok q \<and> rq_command q = Connect \<and> header_canon frame = Request_to_bytes q \<and>
    received c pre = greeting_bytes g @ auth_frames (gc_auth ctx) @ frame \<and> sent c pre = auth_answers (gc_auth ctx)"
proof -
  let ?dt = "gc_connect_timeout ctx"
  obtain ra tr1 where a: "gw_authenticate env c ctx [] = (ra, tr1)" by fastforce
  have "\<forall>e \<in> set tr1. talks_to c e" using emitsD [OF gw_authenticate_talks a] by (metis append_Nil)
  then obtain u where ra: "ra = Inr u"
    using run a assms(3,4) by (cases ra) (auto simp: gw_run_with_ctx_def io_bind_def)
  obtain rb tr2 where b: "gw_accept_request env c ?dt tr1 = (rb, tr2)" by fastforce
  have talks: "\<forall>e \<in> set tr2. talks_to c e"
    using emitsD [OF gw_accept_talks b] \<open>\<forall>e \<in> set tr1. talks_to c e\<close> by (metis Un_iff set_append)
  then obtain q where rb: "rb = Inr q"
    using run a ra b assms(3,4) by (cases rb) (auto simp: gw_run_with_ctx_def io_bind_def)
  from gw_authenticate_sound [OF assms(1) a [unfolded ra]] obtain g where
    1: "admits (gc_auth ctx) g" "received c tr1 = greeting_bytes g @ auth_frames (gc_auth ctx)" "sent c tr1 = auth_answers (gc_auth ctx)"
    by (metis append_Nil)
  from gw_accept_sound [OF assms(1) b [unfolded rb]] obtain evs where
    2: "request_ok q" "rq_command q = Connect" "tr2 = tr1 @ evs" "header_canon (received c evs) = Request_to_bytes q" "sent c evs = []"
    by blast
  have "snd (gw_serve env c ctx q tr2) = tr"
    using run a b ra rb by (simp add: gw_run_with_ctx_def io_bind_def)
  then obtain p post where tr: "tr = tr2 @ Post (select_call ctx) p # post" using gw_serve_first by metis
  then have "ev \<in> set (Post (select_call ctx) p # post)" using assms(3,4) talks by auto
  with 1 2 tr talks show ?thesis
    by - (rule exI [of _ tr2], rule exI [of _ post], rule exI [of _ p], rule exI [of _ g],
        rule exI [of _ q], rule exI [of _ "received c evs"], simp)
qed

theorem gateway_acts_for_admitted_clients_witness:
  "\<exists>pre post p. snd (gw_run_with_ctx (script_env sample_inbox) 0 sample_ctx []) = pre @ Post (select_call sample_ctx) p # post \<and>
     (\<forall>e \<in> set pre. talks_to 0 e) \<and> CopyBidirectional 0 1 (Inr (10, 20)) \<in> set (Post (select_call sample_ctx) p # post)"
  using sample_run gateway_acts_for_admitted_clients [OF script_env_ok(1)]
  by (metis snd_conv talks_to_simps(5))

text \<open>
  C9. An honest client is served. If the client sends an admissible greeting, the configured credentials
  and a CONNECT request, the control plane answers with a node, and that node accepts the chained
  connection, then the session succeeds: it forwards exactly the client's request to the node, tells the
  client so, consumes from the client nothing but the preamble, and splices the two streams.
\<close>

theorem gateway_serves_honest_client:
  assumes "honest_client env c (gc_auth ctx) g q rest" and "control_plane_answers env n"
    and "working_node env s (sr_address n) p data" "rp_code p = reply_SUCCESS" "s \<noteq> c"
    and "\<forall>tr d. env_copy env tr d c s = Inr (up, down)"
  shows "\<exists>tr. gw_run_with_ctx env c ctx [] = (Inr (), tr) \<and>
    received c tr = greeting_bytes g @ auth_frames (gc_auth ctx) @ Request_to_bytes q \<and>
    sent c tr = auth_answers (gc_auth ctx) @ reply_bytes reply_SUCCESS \<and>
    sent s tr = [VERSION, 1, method_NO_AUTH] @ Request_to_bytes q \<and> CopyBidirectional c s (Inr (up, down)) \<in> set tr"
  by (rule gw_run_complete [OF assms(1-5), of up down]) (use assms(6) in auto)

theorem gateway_serves_honest_client_witness:
  "\<exists>tr. gw_run_with_ctx (script_env sample_inbox) 0 sample_ctx [] = (Inr (), tr) \<and>
     sent 1 tr = [5, 1, 0] @ Request_to_bytes sample_connect"
  using gateway_serves_honest_client [OF sample_honest script_env_ok(4) sample_works, of 10 20]
  by (auto simp: simple_reply_def script_env_ok)

text \<open>
  C33. What the gateway takes from the node before it splices. When the node's reply carries an IP address, exactly
  the method selection and the reply are consumed; when it carries a domain name, one byte more is, so
  the first byte the node relays is lost.
\<close>

theorem chain_consumes_reply:
  assumes "working_node env s addr p data" and "received s tr = []"
  shows "\<exists>evs. snd (connect_and_chain env addr dest d tr) = tr @ evs \<and>
    (fst (connect_and_chain env addr dest d tr) = Inr s \<longleftrightarrow> rp_code p = reply_SUCCESS) \<and>
    received s evs = [VERSION, method_NO_AUTH] @ Reply_to_bytes p @
      (case sa_host (rp_bind_addr p) of Ip _ \<Rightarrow> [] | Domain _ \<Rightarrow> take 1 data)"
proof -
  have "env_connect env tr d addr = Inr s" "accepts env s" "delivers env s ([5, 0] @ Reply_to_bytes p @ data)"
      "reply_ok p" "covers_overread p data" "pending s ([5, 0] @ Reply_to_bytes p @ data) tr = [5, 0] @ Reply_to_bytes p @ data"
    using assms by (simp_all add: working_node_def pending_def)
  from connect_and_chain_complete [OF this, of dest] obtain evs where
    "connect_and_chain env addr dest d tr = (if rp_code p = reply_SUCCESS then Inr s
       else Inl (GwRelay (''node CONNECT failed (reply '' @ hex04 (rp_code p) @ '')'')), tr @ evs)"
    "received s evs = [5, 0] @ Reply_to_bytes p @ overread p data" by metis
  then show ?thesis by (auto simp: overread_def split: Host.split)
qed

theorem chain_consumes_reply_witness:
  "\<exists>evs. snd (connect_and_chain (script_env (\<lambda>_. [5, 0, 5, 0, 0, 3, 1, 97, 0, 80, 42, 43])) ''n'' (rq_addr sample_connect) 1 []) = evs \<and>
     received 1 evs = [5, 0, 5, 0, 0, 3, 1, 97, 0, 80, 42]"
proof -
  let ?p = "\<lparr>rp_code = 0, rp_bind_addr = \<lparr>sa_host = Domain ''a'', sa_port = 80\<rparr>\<rparr>"
  let ?env = "script_env (\<lambda>_. [5, 0, 5, 0, 0, 3, 1, 97, 0, 80, 42, 43])"
  have ok: "reply_ok ?p" by (simp add: reply_ok_def is_rust_string_ascii)
  have bytes: "Reply_to_bytes ?p = [5, 0, 0, 3, 1, 97, 0, 80]"
    unfolding Reply_to_bytes_eq [OF ok] by (simp add: port_bytes_def len_as_u8_def as_bytes_def byte_of_char_def)
  have "working_node ?env 1 ''n'' ?p [42, 43]"
    using script_env_ok(3) [of "\<lambda>_. [5, 0, 5, 0, 0, 3, 1, 97, 0, 80, 42, 43]" 1]
    by (simp add: working_node_def script_env_ok ok covers_overread_def bytes)
  from chain_consumes_reply [OF this, of "[]"] show ?thesis by (simp add: bytes)
qed

text \<open>
  C34. What a client is told when serving its request fails: the reply HOST\_UNREACHABLE when no node could be selected,
  SUCCESS when only the relay failed, and nothing at all when the selected node could not be reached or refused
  the request, whatever the node's reply code said.
\<close>

theorem gateway_error_replies:
  assumes "\<forall>tr d a s. env_connect env tr d a = Inr s \<longrightarrow> s \<noteq> c"
    and "gw_serve env c ctx q tr = (Inl e, tr @ evs)"
  shows "attempted c evs =
    (case gw_select_node env (gc_connect_timeout ctx) (gc_client ctx) tr of
       (Inl _, _) \<Rightarrow> [reply_bytes reply_HOST_UNREACHABLE]
     | (Inr n, tr1) \<Rightarrow>
        (case connect_and_chain env (rn_forward_address n) (rq_addr q) (gc_connect_timeout ctx) tr1 of
           (Inl _, _) \<Rightarrow> []
         | (Inr _, _) \<Rightarrow> [reply_bytes reply_SUCCESS]))"
proof -
  let ?dt = "gc_connect_timeout ctx" and ?post = "\<lambda>tr. Post (select_call ctx) (env_post_within env tr (gc_connect_timeout ctx) (select_call ctx))"
  obtain r tr1 where sel: "gw_select_node env ?dt (gc_client ctx) tr = (r, tr1)" by fastforce
  have tr1: "tr1 = tr @ [?post tr]" using snd_gw_select [of env ?dt ctx tr] sel by simp
  show ?thesis
  proof (cases r)
    case (Inl f)
    then show ?thesis using assms(2) sel tr1
      by (cases f) (auto simp: gw_serve_def gw_pick_node_def io_bind_def gw_try_reply_eq Let_def)
  next
    case (Inr n)
    obtain x tr2 where chain: "connect_and_chain env (rn_forward_address n) (rq_addr q) ?dt tr1 = (x, tr2)" by fastforce
    have "emits (\<lambda>e. attempted_by c e = []) (connect_and_chain env (rn_forward_address n) (rq_addr q) ?dt)"
      using assms(1) by (intro emits_chain_to) auto
    from emitsD [OF this chain] obtain evs2 where tr2: "tr2 = tr1 @ evs2" "attempted c evs2 = []"
      by (metis (no_types, lifting) attempted_def concat_eq_Nil_conv imageE set_map)
    show ?thesis using assms(2) sel tr1 Inr chain tr2
      by (auto simp: gw_serve_def gw_pick_node_def io_bind_def Let_def gw_write_all_timeout_def io_map_err_def write_all_def
          relay_def copy_bidirectional_def emit_def split: sum.splits prod.splits)
  qed
qed

theorem gateway_error_replies_witness:
  "attempted 0 (snd (gw_serve ((script_env sample_inbox)\<lparr>env_connect := \<lambda>tr d a. Inl (Done ConnectionRefused)\<rparr>)
     0 sample_ctx sample_connect [])) = []"
proof -
  let ?env = "(script_env sample_inbox)\<lparr>env_connect := \<lambda>tr d a. Inl (Done ConnectionRefused)\<rparr>"
  let ?n = "\<lparr>rn_id = ''n1'', rn_forward_address = ''10.0.0.1:1080''\<rparr>" and ?dt = "gc_connect_timeout sample_ctx"
  have sel: "fst (gw_select_node ?env ?dt (gc_client sample_ctx) []) = Inr ?n"
    by (simp add: gw_select_node_def io_bind_def io_map_err_def post_within_def script_env_def is_success_def Let_def)
  then obtain tr1 where sel1: "gw_select_node ?env ?dt (gc_client sample_ctx) [] = (Inr ?n, tr1)" by (metis prod.collapse)
  have chain: "connect_and_chain ?env a b ?dt tr = (Inl (GwIo ConnectionRefused), tr @ [ConnectTo a (Inl (Done ConnectionRefused))])" for a b tr
    by (simp add: connect_and_chain_def io_bind_def io_map_err_def connect_to_def Let_def)
  have "gw_serve ?env 0 sample_ctx sample_connect [] =
      (Inl (GwIo ConnectionRefused), [] @ tr1 @ [ConnectTo ''10.0.0.1:1080'' (Inl (Done ConnectionRefused))])"
    using sel1 by (simp add: gw_serve_def gw_pick_node_def io_bind_def Let_def chain)
  from gateway_error_replies [OF _ this] show ?thesis
    using sel1 by (simp add: chain gw_serve_def gw_pick_node_def io_bind_def Let_def)
qed

text \<open>
  A session's books balance: every connection is counted once, the gauge of active connections ends where it started
  however the session ends, and the error counter goes up exactly when the session failed.
\<close>

lemma gateway_metrics_balance:
  "gauge ''proxy_active_connections'' (gw_handle_connection env c ctx tr) = gauge ''proxy_active_connections'' tr \<and>
   counter ''proxy_connections_total'' (gw_handle_connection env c ctx tr) = counter ''proxy_connections_total'' tr + 1 \<and>
   counter ''proxy_connection_errors_total'' (gw_handle_connection env c ctx tr) = counter ''proxy_connection_errors_total'' tr +
     (if isl (fst (gw_run_with_ctx env c ctx (tr @ map Metric gw_record_connection_opened))) then 1 else 0)"
proof -
  obtain r tr1 where run: "gw_run_with_ctx env c ctx (tr @ map Metric gw_record_connection_opened) = (r, tr1)" by fastforce
  from emitsD [OF run_counts_bytes run] obtain evs where evs: "tr1 = (tr @ map Metric gw_record_connection_opened) @ evs"
    "\<forall>e \<in> set evs. counts_bytes e" .
  have zero: "gauge n evs = 0" "counter ''proxy_connections_total'' evs = 0" "counter ''proxy_connection_errors_total'' evs = 0" for n
    using bytes_only [OF evs(2), of "''proxy_connections_total''" n]
      bytes_only [OF evs(2), of "''proxy_connection_errors_total''"] by simp_all
  show ?thesis
    using run evs(1) zero
    by (cases r) (simp_all add: gw_handle_connection_def gw_record_connection_opened_def
        gw_record_connection_closed_def gw_record_connection_error_def)
qed

end
