(* ===== verification/Common_Config.thy ===== *)
theory Common_Config
  imports Socks_Address
begin

text \<open>
  Configuration of the services, from the common crate: log levels (\<^verbatim>\<open>logging.rs\<close>), the error type
  (\<^verbatim>\<open>error.rs\<close>), the configuration records with their defaults and the loader (\<^verbatim>\<open>config.rs\<close>), and the
  command line (\<^verbatim>\<open>cli.rs\<close>). Reading the file and decoding TOML belong to other crates and are arguments of
  \<open>load\<close>.
\<close>

section \<open>Log levels\<close>

datatype LogLevel = Trace | Debug | Info | Warn | Error

definition LogLevel_default :: LogLevel where
  "LogLevel_default = Info"

definition to_ascii_lowercase :: "string \<Rightarrow> string" where
  "to_ascii_lowercase = map (\<lambda>ch. let n = of_char ch in if 65 \<le> n \<and> n \<le> (90 :: nat) then char_of (n + 32) else ch)"

definition LogLevel_from_str :: "string \<Rightarrow> string + LogLevel" where
  "LogLevel_from_str s =
     (let other = to_ascii_lowercase s in
      if other = ''trace'' then Inr Trace
      else if other = ''debug'' then Inr Debug
      else if other = ''info'' then Inr Info
      else if other = ''warn'' then Inr Warn
      else if other = ''error'' then Inr Error
      else Inl (''unknown log level: '' @ other))"

fun LogLevel_as_str :: "LogLevel \<Rightarrow> string" where
  "LogLevel_as_str Trace = ''trace''"
| "LogLevel_as_str Debug = ''debug''"
| "LogLevel_as_str Info = ''info''"
| "LogLevel_as_str Warn = ''warn''"
| "LogLevel_as_str Error = ''error''"

text \<open>The filter directive \<^verbatim>\<open>init\<close> installs, given what \<^verbatim>\<open>RUST_LOG\<close> holds.\<close>

definition log_filter :: "string option \<Rightarrow> LogLevel \<Rightarrow> string" where
  "log_filter from_env level = (case from_env of Some f \<Rightarrow> f | None \<Rightarrow> ''rustproxy='' @ LogLevel_as_str level)"

section \<open>Errors\<close>

datatype CommonError =
    IoErr string
  | SerdeErr string
  | ProtocolErr string
  | ConfigErr string
  | ControlPlaneErr string
  | OtherErr

fun CommonError_to_string :: "CommonError \<Rightarrow> string" where
  "CommonError_to_string (IoErr e) = ''io error: '' @ e"
| "CommonError_to_string (SerdeErr e) = ''serde error: '' @ e"
| "CommonError_to_string (ProtocolErr e) = ''protocol error: '' @ e"
| "CommonError_to_string (ConfigErr e) = ''config error: '' @ e"
| "CommonError_to_string (ControlPlaneErr e) = ''control plane error: '' @ e"
| "CommonError_to_string OtherErr = ''unknown error''"

section \<open>Configuration records\<close>

datatype SocketAddr = SocketAddr IpAddr u16

fun SocketAddr_display :: "SocketAddr \<Rightarrow> string" where
  "SocketAddr_display (SocketAddr (V4 a b c d) p) = ipv4_display a b c d @ '':'' @ to_dec (unat p)"
| "SocketAddr_display (SocketAddr (V6 o16) p) = ''['' @ ipv6_display o16 @ '']:'' @ to_dec (unat p)"

record LoggingConfig =
  lc_level :: LogLevel
  lc_json :: bool

definition LoggingConfig_default :: LoggingConfig where
  "LoggingConfig_default = \<lparr>lc_level = LogLevel_default, lc_json = False\<rparr>"

record ControlPlaneConfig =
  cpc_bind_addr :: SocketAddr
  cpc_sqlite_path :: string
  cpc_offline_timeout :: Duration
  cpc_sweep_interval :: Duration
  cpc_api_token :: "string option"
  cpc_logging :: LoggingConfig

definition default_offline_timeout :: Duration where
  "default_offline_timeout = from_secs 30"

definition default_sweep_interval :: Duration where
  "default_sweep_interval = from_secs 5"

record GatewayConfig =
  gwc_bind_addr :: SocketAddr
  gwc_control_plane_url :: string
  gwc_api_token :: "string option"
  gwc_socks_username :: "string option"
  gwc_socks_password :: "string option"
  gwc_max_connections :: nat
  gwc_connect_timeout :: Duration
  gwc_idle_timeout :: Duration
  gwc_metrics_bind_addr :: "SocketAddr option"
  gwc_logging :: LoggingConfig

definition default_max_connections :: nat where
  "default_max_connections = 1024"

definition default_connect_timeout :: Duration where
  "default_connect_timeout = from_secs 10"

definition default_idle_timeout :: Duration where
  "default_idle_timeout = from_secs 300"

record NodeConfig =
  ndc_node_id :: string
  ndc_control_plane_url :: string
  ndc_api_token :: "string option"
  ndc_bind_addr :: SocketAddr
  ndc_advertised_address :: "string option"
  ndc_bandwidth_limit :: u64
  ndc_max_connections :: nat
  ndc_heartbeat_interval :: Duration
  ndc_upstream_timeout :: Duration
  ndc_logging :: LoggingConfig

definition default_bandwidth_limit :: u64 where
  "default_bandwidth_limit = 10 * 1024 * 1024"

definition default_node_max_connections :: nat where
  "default_node_max_connections = 128"

definition default_heartbeat_interval :: Duration where
  "default_heartbeat_interval = from_secs 5"

definition default_upstream_timeout :: Duration where
  "default_upstream_timeout = from_secs 10"

definition load :: "(string \<Rightarrow> string + string) \<Rightarrow> (string \<Rightarrow> string + 'c) \<Rightarrow> string \<Rightarrow> CommonError + 'c" where
  "load read_to_string from_toml path =
     and_then (map_err (\<lambda>e. ConfigErr (''failed to read '' @ path @ '': '' @ e)) (read_to_string path)) (\<lambda>raw.
     and_then (map_err (\<lambda>e. ConfigErr (''failed to parse '' @ path @ '': '' @ e)) (from_toml raw)) (\<lambda>cfg.
     Inr cfg))"

section \<open>The command line\<close>

record ServiceArgs =
  sa_config :: string
  sa_log_level :: "LogLevel option"

datatype CliCommand = GatewayCmd ServiceArgs | NodeCmd ServiceArgs | ControlPlaneCmd ServiceArgs | MigrateCmd ServiceArgs

definition effective_level :: "ServiceArgs \<Rightarrow> LoggingConfig \<Rightarrow> LogLevel" where
  "effective_level args logging = (case sa_log_level args of Some l \<Rightarrow> l | None \<Rightarrow> lc_level logging)"

section \<open>Facts\<close>

lemma load_Inr: "load rd toml path = Inr cfg \<longleftrightarrow> (\<exists>raw. rd path = Inr raw \<and> toml raw = Inr cfg)"
  by (auto simp: load_def and_then_eq_Inr)

lemma lowercase_as_str [simp]: "to_ascii_lowercase (LogLevel_as_str l) = LogLevel_as_str l"
  by (cases l) (simp_all add: to_ascii_lowercase_def)

text \<open>
  A string is read as a level exactly when, ignoring the case of ASCII letters, it is that
  level's name.
\<close>

lemma log_level_roundtrip:
  "LogLevel_from_str s = Inr l \<longleftrightarrow> to_ascii_lowercase s = LogLevel_as_str l"
  by (cases l) (auto simp: LogLevel_from_str_def Let_def split: if_splits)

end
