(* ===== verification/Polling.thy ===== *)
theory Polling
  imports Proxy_Prelude
begin

text \<open>
  Loops that poll: both servers wait for their sessions at shutdown by testing a condition, sleeping a fixed time,
  and testing again.
\<close>

text \<open>A loop that passes until a condition holds; what it returns is the pass at which it stopped.\<close>

locale polling_loop =
  fixes loop :: "nat \<Rightarrow> nat option" and stop :: "nat \<Rightarrow> bool"
  assumes unfold: "loop i = (if stop i then Some i else loop (Suc i))"
begin

lemma loop_returns:
  assumes "stop n" "i \<le> n"
  shows "\<exists>j. i \<le> j \<and> j \<le> n \<and> loop i = Some j \<and> stop j \<and> (\<forall>k. i \<le> k \<and> k < j \<longrightarrow> \<not> stop k)"
  using assms(2)
proof (induction "n - i" arbitrary: i)
  case 0
  then show ?case using assms(1) unfold [of i] by (intro exI [of _ i]) auto
next
  case (Suc m)
  show ?case
  proof (cases "stop i")
    case True
    then show ?thesis using Suc.prems unfold [of i] by (intro exI [of _ i]) auto
  next
    case False
    then have "Suc i \<le> n" "m = n - Suc i" using Suc by auto
    from Suc.hyps(1) [OF this(2,1)] obtain j where "Suc i \<le> j \<and> j \<le> n \<and> loop (Suc i) = Some j \<and> stop j \<and>
        (\<forall>k. Suc i \<le> k \<and> k < j \<longrightarrow> \<not> stop k)" by blast
    moreover from this False have "\<not> stop k" if "i \<le> k \<and> k < j" for k using that by (cases "k = i") auto
    ultimately show ?thesis using False unfold [of i] by (intro exI [of _ j]) auto
  qed
qed

end

lemma paced_clock:
  assumes "\<forall>i. elapsed i + step \<le> elapsed (Suc i)"
  shows "n * step \<le> (elapsed n :: nat)"
proof (induction n)
  case (Suc n)
  then show ?case using assms [rule_format, of n] by simp
qed simp

end
