(* ===== verification/Gateway_Server.thy ===== *)
theory Gateway_Server
  imports Gateway_Session Common_Config Polling
begin

text \<open>
  The gateway's server, from \<^verbatim>\<open>gateway.rs\<close> and \<^verbatim>\<open>metrics_server.rs\<close>: construction from the configuration, the
  accept loop with its semaphore and its connection tasks as a step relation, the shutdown loop, and the routes
  of the metrics endpoint. A task that gets its permit looks at the token and starts its session, or leaves, in the same
  step; aborting the metrics server ends it at once. Every task holds a clone of the semaphore, so the number of clones (\<^verbatim>\<open>strong_count\<close>)
  is one more than the number of tasks.
\<close>

section \<open>Construction\<close>

record Gateway =
  gw_ctx :: GatewayContext
  gw_sem :: nat
  gw_config :: GatewayConfig

definition Gateway_new :: "GatewayConfig \<Rightarrow> ControlPlaneClient \<Rightarrow> Gateway" where
  "Gateway_new config client =
     (let auth = (case (gwc_socks_username config, gwc_socks_password config) of
                    (Some user, Some pass) \<Rightarrow> Some (user, pass)
                  | _ \<Rightarrow> None);
          ctx = \<lparr>gc_client = client, gc_auth = auth, gc_connect_timeout = gwc_connect_timeout config,
                 gc_idle_timeout = gwc_idle_timeout config\<rparr> in
      \<lparr>gw_ctx = ctx, gw_sem = gwc_max_connections config, gw_config = config\<rparr>)"

section \<open>The running server\<close>

text \<open>
  The metrics server runs beside the accept loop when an address is configured for it: it binds, serves until the
  token is cancelled, or gives up if it cannot bind; whatever is left of it is aborted when \<^verbatim>\<open>run\<close> returns.
\<close>

datatype MetricsTask = NoMetrics | MetricsBinding | MetricsServing | MetricsEnded

record GwServer =
  gs_permits :: nat
  gs_waiting :: nat
  gs_running :: nat
  gs_accepting :: bool
  gs_cancelled :: bool
  gs_metrics :: MetricsTask
  gs_returned :: bool

definition gw_server_start :: "Gateway \<Rightarrow> GwServer" where
  "gw_server_start gw = \<lparr>gs_permits = gw_sem gw, gs_waiting = 0, gs_running = 0, gs_accepting = True, gs_cancelled = False,
     gs_metrics = (case gwc_metrics_bind_addr (gw_config gw) of None \<Rightarrow> NoMetrics | Some addr \<Rightarrow> MetricsBinding), gs_returned = False\<rparr>"

inductive gw_server_step :: "GwServer \<Rightarrow> GwServer \<Rightarrow> bool" where
  gw_accept: "gs_accepting s \<Longrightarrow> gw_server_step s (s\<lparr>gs_waiting := gs_waiting s + 1\<rparr>)"
| gw_accept_failed: "gs_accepting s \<Longrightarrow> gw_server_step s s"
| gw_acquire: "gs_waiting s = Suc n \<Longrightarrow> gs_permits s = Suc m \<Longrightarrow> \<not> gs_cancelled s \<Longrightarrow>
    gw_server_step s (s\<lparr>gs_waiting := n, gs_permits := m, gs_running := gs_running s + 1\<rparr>)"
| gw_dropped: "gs_waiting s = Suc n \<Longrightarrow> gs_permits s = Suc m \<Longrightarrow> gs_cancelled s \<Longrightarrow>
    gw_server_step s (s\<lparr>gs_waiting := n\<rparr>)"
| gw_finished: "gs_running s = Suc n \<Longrightarrow>
    gw_server_step s (s\<lparr>gs_running := n, gs_permits := gs_permits s + 1\<rparr>)"
| gw_cancel: "gw_server_step s (s\<lparr>gs_cancelled := True\<rparr>)"
| gw_stop: "gs_accepting s \<Longrightarrow> gs_cancelled s \<Longrightarrow> gw_server_step s (s\<lparr>gs_accepting := False\<rparr>)"
| gw_metrics_bound: "gs_metrics s = MetricsBinding \<Longrightarrow> gw_server_step s (s\<lparr>gs_metrics := MetricsServing\<rparr>)"
| gw_metrics_failed: "gs_metrics s = MetricsBinding \<Longrightarrow> gw_server_step s (s\<lparr>gs_metrics := MetricsEnded\<rparr>)"
| gw_metrics_stopped: "gs_metrics s = MetricsServing \<Longrightarrow> gs_cancelled s \<Longrightarrow> gw_server_step s (s\<lparr>gs_metrics := MetricsEnded\<rparr>)"
| gw_return: "\<not> gs_accepting s \<Longrightarrow> \<not> gs_returned s \<Longrightarrow>
    gw_server_step s (s\<lparr>gs_metrics := (if gs_metrics s = NoMetrics then NoMetrics else MetricsEnded), gs_returned := True\<rparr>)"

inductive_cases gw_server_stepE: "gw_server_step s s'"

inductive gw_server_reach :: "Gateway \<Rightarrow> GwServer \<Rightarrow> bool" for gw :: Gateway where
  gw_start: "gw_server_reach gw (gw_server_start gw)"
| gw_step: "gw_server_reach gw s \<Longrightarrow> gw_server_step s s' \<Longrightarrow> gw_server_reach gw s'"

definition strong_count :: "GwServer \<Rightarrow> nat" where
  "strong_count s = 1 + gs_waiting s + gs_running s"

definition gw_drain_deadline :: Duration where
  "gw_drain_deadline = from_secs 10"

definition gw_drain_pause :: Duration where
  "gw_drain_pause = from_millis 50"

partial_function (option) gw_drain_loop :: "(nat \<Rightarrow> nat) \<Rightarrow> (nat \<Rightarrow> Duration) \<Rightarrow> nat \<Rightarrow> nat option" where
  "gw_drain_loop strong elapsed i =
     (if strong i \<le> 1 \<or> elapsed i \<ge> gw_drain_deadline then Some i else gw_drain_loop strong elapsed (Suc i))"

interpretation gw_drain: polling_loop "gw_drain_loop strong elapsed" "\<lambda>i. strong i \<le> 1 \<or> elapsed i \<ge> gw_drain_deadline"
  by unfold_locales (rule gw_drain_loop.simps)

text \<open>The metrics endpoint; \<open>render\<close> is the recorder's. A HEAD request is served by the \<^verbatim>\<open>get\<close> route, without the body.\<close>

datatype MetricsMethod = MetricsGet | MetricsHead | MetricsOther

datatype MetricsReply = MetricsText string | HealthOk | MetricsEmpty | MetricsNotFound | MetricsNotAllowed

fun metrics_get :: "MetricsMethod \<Rightarrow> MetricsReply \<Rightarrow> MetricsReply" where
  "metrics_get MetricsGet r = r"
| "metrics_get MetricsHead r = MetricsEmpty"
| "metrics_get MetricsOther r = MetricsNotAllowed"

definition metrics_router :: "(unit \<Rightarrow> string) \<Rightarrow> MetricsMethod \<Rightarrow> string list \<Rightarrow> MetricsReply" where
  "metrics_router render m path =
     (if path = [''metrics''] then metrics_get m (MetricsText (render ()))
      else if path = [''health''] then metrics_get m HealthOk
      else MetricsNotFound)"

section \<open>Facts\<close>

lemma Gateway_new_auth:
  "gc_auth (gw_ctx (Gateway_new config client)) = Some (u, p) \<longleftrightarrow>
     gwc_socks_username config = Some u \<and> gwc_socks_password config = Some p"
  by (auto simp: Gateway_new_def Let_def split: option.split)

text \<open>A username without a password turns authentication off.\<close>

lemma username_alone_disables_auth:
  "gwc_socks_password config = None \<Longrightarrow> gc_auth (gw_ctx (Gateway_new config client)) = None"
  by (simp add: Gateway_new_def Let_def split: option.split)

lemma gw_permits: "gw_server_reach gw s \<Longrightarrow> gs_permits s + gs_running s = gw_sem gw"
  by (induction rule: gw_server_reach.induct) (auto simp: gw_server_start_def elim!: gw_server_stepE)

lemma gw_stopped: "gw_server_reach gw s \<Longrightarrow> \<not> gs_accepting s \<Longrightarrow> gs_cancelled s"
  by (induction rule: gw_server_reach.induct) (auto simp: gw_server_start_def elim!: gw_server_stepE)

text \<open>When the gateway has returned, its accept loop has left and no metrics server is left behind.\<close>

lemma gw_returned: "gw_server_reach gw s \<Longrightarrow> gs_returned s \<Longrightarrow> \<not> gs_accepting s \<and> gs_metrics s \<in> {NoMetrics, MetricsEnded}"
  by (induction rule: gw_server_reach.induct) (auto simp: gw_server_start_def elim!: gw_server_stepE split: if_splits)

lemma gw_drain_returns:
  assumes "\<forall>i. elapsed i + gw_drain_pause \<le> elapsed (Suc i)"
  shows "\<exists>n. n \<le> 200 \<and> gw_drain_loop strong elapsed 0 = Some n \<and> (strong n \<le> 1 \<or> elapsed n \<ge> gw_drain_deadline) \<and>
    (\<forall>k. k < n \<longrightarrow> 1 < strong k \<and> elapsed k < gw_drain_deadline)"
proof -
  have "gw_drain_deadline \<le> elapsed 200"
    using paced_clock [OF assms, of 200] by (simp add: gw_drain_deadline_def gw_drain_pause_def from_secs_def from_millis_def)
  then show ?thesis using gw_drain.loop_returns [of strong 200 elapsed 0] by (auto simp: not_le)
qed

section \<open>Properties\<close>

text \<open>
  C39. The gateway's connection ceiling and shutdown. Under any interleaving of accepts, connection tasks and the shutdown
  signal, running sessions and free permits add up to the configured maximum; a step after the signal never
  starts a session, and once the accept loop has left, no step creates a task, so the count of
  semaphore clones the shutdown loop watches only falls; once it has returned, no metrics server is left.
\<close>

theorem gateway_ceiling_and_shutdown:
  assumes "gw_server_reach (Gateway_new config client) s" and "gw_server_step s s'"
  shows "gs_permits s + gs_running s = gwc_max_connections config \<and> gs_running s' \<le> gwc_max_connections config \<and>
    (gs_cancelled s \<longrightarrow> gs_cancelled s' \<and> gs_running s' \<le> gs_running s) \<and>
    (\<not> gs_accepting s \<longrightarrow> \<not> gs_accepting s' \<and> strong_count s' \<le> strong_count s) \<and>
    (gs_returned s \<longrightarrow> gs_metrics s \<in> {NoMetrics, MetricsEnded})"
proof -
  let ?gw = "Gateway_new config client"
  have sem: "gw_sem ?gw = gwc_max_connections config" by (simp add: Gateway_new_def Let_def)
  have "gs_permits s' + gs_running s' = gw_sem ?gw" using gw_permits [OF gw_step [OF assms]] .
  then have "gs_running s' \<le> gwc_max_connections config" using sem by simp
  moreover have "gs_cancelled s \<longrightarrow> gs_cancelled s' \<and> gs_running s' \<le> gs_running s"
    using assms(2) by (auto elim!: gw_server_stepE)
  moreover have "\<not> gs_accepting s \<longrightarrow> \<not> gs_accepting s' \<and> strong_count s' \<le> strong_count s"
    using assms(2) gw_stopped [OF assms(1)] by (auto simp: strong_count_def elim!: gw_server_stepE)
  ultimately show ?thesis using gw_permits [OF assms(1)] gw_returned [OF assms(1)] sem by simp
qed

definition sample_gateway_config :: GatewayConfig where
  "sample_gateway_config = \<lparr>gwc_bind_addr = SocketAddr (V4 0 0 0 0) 1080, gwc_control_plane_url = ''http://cp:8080'',
     gwc_api_token = None, gwc_socks_username = None, gwc_socks_password = None, gwc_max_connections = default_max_connections,
     gwc_connect_timeout = default_connect_timeout, gwc_idle_timeout = default_idle_timeout, gwc_metrics_bind_addr = None,
     gwc_logging = LoggingConfig_default\<rparr>"

theorem gateway_ceiling_and_shutdown_witness:
  "gs_permits (gw_server_start (Gateway_new sample_gateway_config (ControlPlaneClient_new ''http://cp:8080'' None))) +
     gs_running (gw_server_start (Gateway_new sample_gateway_config (ControlPlaneClient_new ''http://cp:8080'' None))) = 1024"
  using gateway_ceiling_and_shutdown [OF gw_start gw_cancel, of sample_gateway_config "ControlPlaneClient_new ''http://cp:8080'' None"]
  by (simp add: sample_gateway_config_def default_max_connections_def)

end
