(* ===== verification/Node_Handler.thy ===== *)
theory Node_Handler
  imports Gateway_Session
begin

text \<open>
  One connection of the node agent, from the node's \<^verbatim>\<open>handler.rs\<close>: the same SOCKS5 preamble as
  the gateway's (the crate has its own copy of the code, with its own errors), then the connection to
  the target and the relay. The copy is shown to behave as the gateway's, up to the renaming of
  errors, and inherits its contracts.
\<close>

section \<open>Errors, metrics and context\<close>

datatype NodeError =
    NodeProtocol string
  | NodeTimeout string
  | NodeIo IoError
  | NodeRelay string

definition node_record_connection_opened :: "MetricCall list" where
  "node_record_connection_opened = [CounterAdd ''node_connections_total'' 1, GaugeAdd ''node_active_connections'' 1]"

definition node_record_connection_closed :: "MetricCall list" where
  "node_record_connection_closed = [GaugeAdd ''node_active_connections'' (- 1)]"

definition node_record_connection_error :: "MetricCall list" where
  "node_record_connection_error = [CounterAdd ''node_connection_errors_total'' 1]"

definition node_record_bytes_up :: "u64 \<Rightarrow> MetricCall list" where
  "node_record_bytes_up n = [CounterAdd ''node_bytes_up_total'' n]"

definition node_record_bytes_down :: "u64 \<Rightarrow> MetricCall list" where
  "node_record_bytes_down n = [CounterAdd ''node_bytes_down_total'' n]"

record NodeContext =
  nc_auth :: "(string \<times> string) option"
  nc_handshake_timeout :: Duration
  nc_idle_timeout :: Duration

definition node_read_exact_timeout :: "Env \<Rightarrow> conn \<Rightarrow> nat \<Rightarrow> Duration \<Rightarrow> (NodeError, bytes) session" where
  "node_read_exact_timeout env c n deadline =
     io_map_err (\<lambda>f. case f of Elapsed \<Rightarrow> NodeTimeout ''handshake read timed out'' | Done e \<Rightarrow> NodeIo e)
       (read_exact env c deadline n)"

definition node_write_all_timeout :: "Env \<Rightarrow> conn \<Rightarrow> bytes \<Rightarrow> Duration \<Rightarrow> (NodeError, unit) session" where
  "node_write_all_timeout env c data deadline =
     io_map_err (\<lambda>f. case f of Elapsed \<Rightarrow> NodeTimeout ''handshake write timed out'' | Done e \<Rightarrow> NodeIo e)
       (write_all env c deadline data)"

definition node_reply_bytes :: "u8 \<Rightarrow> bytes" where
  "node_reply_bytes code = Reply_to_bytes (simple_reply code)"

definition node_try_reply :: "Env \<Rightarrow> conn \<Rightarrow> u8 \<Rightarrow> Duration \<Rightarrow> (NodeError, unit) session" where
  "node_try_reply env c code deadline tr =
     (case node_write_all_timeout env c (node_reply_bytes code) deadline tr of (_, tr') \<Rightarrow> (Inr (), tr'))"

section \<open>Reading the gateway's messages\<close>

definition node_read_greeting :: "Env \<Rightarrow> conn \<Rightarrow> Duration \<Rightarrow> (NodeError, Greeting) session" where
  "node_read_greeting env c deadline =
     io_bind (node_read_exact_timeout env c GREETING_HEADER_LEN deadline) (\<lambda>hdr.
     let nmethods = unat (hdr ! 1) in
     if nmethods = 0 then io_fail (NodeProtocol ''greeting: no methods'') else
     io_bind (node_read_exact_timeout env c nmethods deadline) (\<lambda>methods.
     io_lift (map_err (\<lambda>e. NodeProtocol (ProtocolError_to_string e)) (Greeting_parse (hdr @ methods)))))"

text \<open>The reads and conversions of \<^verbatim>\<open>handle_user_pass_auth\<close>, up to the comparison.\<close>

definition node_read_credentials :: "Env \<Rightarrow> conn \<Rightarrow> Duration \<Rightarrow> (NodeError, UsernamePassword) session" where
  "node_read_credentials env c deadline =
     io_bind (node_read_exact_timeout env c 1 deadline) (\<lambda>ver.
     if ver ! 0 \<noteq> AUTH_VERSION then
       io_fail (NodeProtocol (''auth frame version '' @ hex04 (ver ! 0) @ '', expected '' @ hex04 AUTH_VERSION))
     else
     io_bind (node_read_exact_timeout env c 1 deadline) (\<lambda>ul.
     let ulen = unat (ul ! 0) in
     if ulen = 0 \<or> ulen > 255 then io_fail (NodeProtocol ''invalid username length'') else
     io_bind (node_read_exact_timeout env c ulen deadline) (\<lambda>uname.
     io_bind (node_read_exact_timeout env c 1 deadline) (\<lambda>pl.
     let plen = unat (pl ! 0) in
     io_bind (node_read_exact_timeout env c plen deadline) (\<lambda>passwd.
     io_bind (io_lift (ok_or (NodeProtocol ''invalid utf-8 in username'') (from_utf8 uname))) (\<lambda>username.
     io_bind (io_lift (ok_or (NodeProtocol ''invalid utf-8 in password'') (from_utf8 passwd))) (\<lambda>password.
     io_return \<lparr>up_username = username, up_password = password\<rparr>)))))))"

definition node_handle_user_pass_auth :: "Env \<Rightarrow> conn \<Rightarrow> NodeContext \<Rightarrow> (NodeError, unit) session" where
  "node_handle_user_pass_auth env c ctx =
     io_bind (node_read_credentials env c (nc_handshake_timeout ctx)) (\<lambda>cred.
     let ok = (case nc_auth ctx of
                 Some (expected_user, expected_pass) \<Rightarrow>
                   up_username cred = expected_user \<and> up_password cred = expected_pass
               | None \<Rightarrow> False);
         status = (if ok then auth_SUCCESS else auth_FAILURE) in
     io_bind (node_write_all_timeout env c (auth_reply_bytes status) (nc_handshake_timeout ctx)) (\<lambda>_.
     if \<not> ok then io_fail (NodeProtocol ''authentication failed'') else io_return ()))"

definition node_read_request :: "Env \<Rightarrow> conn \<Rightarrow> Duration \<Rightarrow> (NodeError, Request) session" where
  "node_read_request env c deadline =
     io_bind (node_read_exact_timeout env c REQUEST_HEADER_LEN deadline) (\<lambda>hdr.
     let atyp = hdr ! 3 in
     io_bind
       (if atyp = atyp_DOMAIN then
          io_bind (node_read_exact_timeout env c 1 deadline) (\<lambda>len_byte.
          let len = len_byte ! 0 in
          io_bind (io_lift (map_err (\<lambda>e. NodeProtocol (ProtocolError_to_string e)) (addr_len atyp (Some len)))) (\<lambda>total.
          io_return (total - 1, Some len)))
        else
          io_bind (io_lift (map_err (\<lambda>e. NodeProtocol (ProtocolError_to_string e)) (addr_len atyp None))) (\<lambda>total.
          io_return (total, None))) (\<lambda>(addr_buf_len, domain_len).
     io_bind (node_read_exact_timeout env c addr_buf_len deadline) (\<lambda>addr_buf.
     let full = hdr @ (case domain_len of Some len \<Rightarrow> [len] | None \<Rightarrow> []) @ addr_buf in
     io_lift (map_err (\<lambda>e. NodeProtocol (ProtocolError_to_string e)) (map_ok fst (Request_parse full))))))"

section \<open>The session\<close>

text \<open>Steps 1 and 2 of \<^verbatim>\<open>run_with_ctx\<close>, step 3, and steps 4 to 6.\<close>

definition node_authenticate :: "Env \<Rightarrow> conn \<Rightarrow> NodeContext \<Rightarrow> (NodeError, unit) session" where
  "node_authenticate env client ctx =
     (let dt = nc_handshake_timeout ctx in
      io_bind (node_read_greeting env client dt) (\<lambda>greeting.
      let allow_no_auth = (nc_auth ctx = None); allow_user_pass = (nc_auth ctx \<noteq> None);
          mthd = negotiate greeting allow_user_pass allow_no_auth in
      io_bind (node_write_all_timeout env client (MethodSelection_to_bytes mthd) dt) (\<lambda>_.
      if ms_method mthd = method_NO_ACCEPTABLE then
        io_fail (NodeProtocol ''no acceptable authentication method'')
      else if ms_method mthd = method_USER_PASS then node_handle_user_pass_auth env client ctx
      else io_return ())))"

definition node_accept_request :: "Env \<Rightarrow> conn \<Rightarrow> Duration \<Rightarrow> (NodeError, Request) session" where
  "node_accept_request env client dt =
     io_bind (node_read_request env client dt) (\<lambda>request.
     if rq_command request \<noteq> Connect then
       io_bind (node_try_reply env client reply_COMMAND_NOT_SUPPORTED dt) (\<lambda>_.
       io_fail (NodeProtocol ''unsupported command (only CONNECT is supported)''))
     else io_return request)"

definition connect_error_code :: "IoError \<Rightarrow> u8" where
  "connect_error_code e = (if e = ConnectionRefused then reply_CONNECTION_REFUSED else reply_NETWORK_UNREACHABLE)"

definition node_connect_target :: "Env \<Rightarrow> conn \<Rightarrow> Duration \<Rightarrow> SocksAddr \<Rightarrow> (NodeError, conn) session" where
  "node_connect_target env gw dt addr tr =
     (case connect_to env dt (SocksAddr_display addr) tr of
        (Inr s, tr') \<Rightarrow> (Inr s, tr')
      | (Inl (Done e), tr') \<Rightarrow>
          io_bind (node_try_reply env gw (connect_error_code e) dt) (\<lambda>_. io_fail (NodeIo e)) tr'
      | (Inl Elapsed, tr') \<Rightarrow>
          io_bind (node_try_reply env gw reply_TTL_EXPIRED dt) (\<lambda>_. io_fail (NodeTimeout ''target connect timed out'')) tr')"

definition node_relay :: "Env \<Rightarrow> conn \<Rightarrow> conn \<Rightarrow> Duration \<Rightarrow> (NodeError, unit) session" where
  "node_relay env gw target idle_timeout tr =
     (case copy_bidirectional env idle_timeout gw target tr of
        (Inr (up, down), tr') \<Rightarrow>
          io_bind (emit (node_record_bytes_up up)) (\<lambda>_. emit (node_record_bytes_down down)) tr'
      | (Inl (Done e), tr') \<Rightarrow> (Inr (), tr')
      | (Inl Elapsed, tr') \<Rightarrow> (Inr (), tr'))"

definition node_serve :: "Env \<Rightarrow> conn \<Rightarrow> NodeContext \<Rightarrow> Request \<Rightarrow> (NodeError, unit) session" where
  "node_serve env gw ctx request =
     (let dt = nc_handshake_timeout ctx in
      io_bind (node_connect_target env gw dt (rq_addr request)) (\<lambda>target_stream.
      io_bind (node_write_all_timeout env gw (node_reply_bytes reply_SUCCESS) dt) (\<lambda>_.
      node_relay env gw target_stream (nc_idle_timeout ctx))))"

definition node_run_with_ctx :: "Env \<Rightarrow> conn \<Rightarrow> NodeContext \<Rightarrow> (NodeError, unit) session" where
  "node_run_with_ctx env gw ctx =
     io_bind (node_authenticate env gw ctx) (\<lambda>_.
     io_bind (node_accept_request env gw (nc_handshake_timeout ctx)) (\<lambda>request.
     node_serve env gw ctx request))"

definition node_handle_connection :: "Env \<Rightarrow> conn \<Rightarrow> NodeContext \<Rightarrow> trace \<Rightarrow> trace" where
  "node_handle_connection env gw ctx tr =
     (case node_run_with_ctx env gw ctx (tr @ map Metric node_record_connection_opened) of
        (Inr _, tr') \<Rightarrow> tr' @ map Metric node_record_connection_closed
      | (Inl e, tr') \<Rightarrow> tr' @ map Metric (node_record_connection_error @ node_record_connection_closed))"

section \<open>The preamble is the gateway's\<close>

fun as_gateway_error :: "NodeError \<Rightarrow> GatewayError" where
  "as_gateway_error (NodeProtocol s) = GwProtocol s"
| "as_gateway_error (NodeTimeout s) = GwTimeout s"
| "as_gateway_error (NodeIo e) = GwIo e"
| "as_gateway_error (NodeRelay s) = GwRelay s"

definition as_gateway :: "('a, NodeError, 'b) io \<Rightarrow> ('a, GatewayError, 'b) io" where
  "as_gateway m = io_map_err as_gateway_error m"

lemma as_gateway_simps [simp]:
  "as_gateway (io_return x) = io_return x" "as_gateway (io_fail e) = io_fail (as_gateway_error e)"
  "as_gateway (io_lift r) = io_lift (map_err as_gateway_error r)"
  "as_gateway (io_bind m f) = io_bind (as_gateway m) (\<lambda>x. as_gateway (f x))"
  "as_gateway (if b then m else m') = (if b then as_gateway m else as_gateway m')"
  by (simp_all add: as_gateway_def io_map_err_bind)

lemma map_err_comp: "map_err f (map_err g r) = map_err (f \<circ> g) r"
  by (cases r) simp_all

lemma map_err_ok_or: "map_err f (ok_or e x) = ok_or (f e) x"
  by (cases x) simp_all

lemma as_gateway_case_prod: "as_gateway (case p of (a, b) \<Rightarrow> f a b) = (case p of (a, b) \<Rightarrow> as_gateway (f a b))"
  by (simp split: prod.split)

lemma as_gateway_calls [simp]:
  "as_gateway (node_read_exact_timeout env c n d) = gw_read_exact_timeout env c n d"
  "as_gateway (node_write_all_timeout env c bs d) = gw_write_all_timeout env c bs d"
proof -
  have "as_gateway_error \<circ> (\<lambda>f. case f of Elapsed \<Rightarrow> NodeTimeout m | Done e \<Rightarrow> NodeIo e) =
      (\<lambda>f. case f of Elapsed \<Rightarrow> GwTimeout m | Done e \<Rightarrow> GwIo e)" for m
    by (auto split: timed.split)
  then show "as_gateway (node_read_exact_timeout env c n d) = gw_read_exact_timeout env c n d"
    "as_gateway (node_write_all_timeout env c bs d) = gw_write_all_timeout env c bs d"
    by (simp_all add: as_gateway_def node_read_exact_timeout_def node_write_all_timeout_def gw_read_exact_timeout_def
        gw_write_all_timeout_def io_map_err_comp)
qed

lemma as_gateway_protocol [simp]: "as_gateway_error \<circ> (\<lambda>e. NodeProtocol (f e)) = (\<lambda>e. GwProtocol (f e))"
  by auto

lemma as_gateway_readers [simp]:
  "as_gateway (node_read_greeting env c d) = gw_read_greeting env c d"
  "as_gateway (node_read_credentials env c d) = gw_read_credentials env c d"
  "as_gateway (node_read_request env c d) = gw_read_request env c d"
  unfolding node_read_greeting_def gw_read_greeting_def node_read_credentials_def gw_read_credentials_def
    node_read_request_def gw_read_request_def Let_def
  by (simp_all add: map_err_comp map_err_ok_or as_gateway_case_prod cong: if_cong)

definition as_gateway_ctx :: "ControlPlaneClient \<Rightarrow> NodeContext \<Rightarrow> GatewayContext" where
  "as_gateway_ctx cl ctx = \<lparr>gc_client = cl, gc_auth = nc_auth ctx, gc_connect_timeout = nc_handshake_timeout ctx,
     gc_idle_timeout = nc_idle_timeout ctx\<rparr>"

lemma as_gateway_ctx_sel [simp]:
  "gc_auth (as_gateway_ctx cl ctx) = nc_auth ctx" "gc_connect_timeout (as_gateway_ctx cl ctx) = nc_handshake_timeout ctx"
  by (simp_all add: as_gateway_ctx_def)

lemma node_reply_bytes_eq [simp]: "node_reply_bytes code = reply_bytes code"
  by (simp add: node_reply_bytes_def reply_bytes_def)

lemma as_gateway_try_reply [simp]: "as_gateway (node_try_reply env c code d) = gw_try_reply env c code d"
  by (rule ext) (simp add: as_gateway_def io_map_err_def node_try_reply_def node_write_all_timeout_def gw_try_reply_def
      gw_write_all_timeout_def write_all_def Let_def)

lemma as_gateway_preamble:
  "as_gateway (node_authenticate env c ctx) = gw_authenticate env c (as_gateway_ctx cl ctx)"
  "as_gateway (node_accept_request env c d) = gw_accept_request env c d"
  unfolding node_authenticate_def gw_authenticate_def node_accept_request_def gw_accept_request_def
    node_handle_user_pass_auth_def gw_handle_user_pass_auth_def Let_def
  by (simp_all cong: if_cong)

interpretation node_greeting: frame_reader node_read_greeting greeting_ok greeting_bytes id
  by (rule frame_reader_map_err [where g = as_gateway_error])
    (simp add: gw_greeting.frame_reader_axioms flip: as_gateway_def)

interpretation node_credentials: frame_reader node_read_credentials credential_ok UsernamePassword_to_vec id
  by (rule frame_reader_map_err [where g = as_gateway_error])
    (simp add: gw_credentials.frame_reader_axioms flip: as_gateway_def)

interpretation node_request: frame_reader node_read_request request_ok Request_to_bytes header_canon
  by (rule frame_reader_map_err [where g = as_gateway_error])
    (simp add: gw_request.frame_reader_axioms flip: as_gateway_def)

lemma as_gateway_Inr: "as_gateway m tr = (Inr x, tr') \<longleftrightarrow> m tr = (Inr x, tr')"
  by (simp add: as_gateway_def)

lemma emits_as_gateway: "emits P (as_gateway m) = emits P m"
  by (simp add: as_gateway_def)

lemma node_preamble_Inr:
  "gw_authenticate env c (as_gateway_ctx cl ctx) tr = (Inr u, tr') \<longleftrightarrow> node_authenticate env c ctx tr = (Inr u, tr')"
  "gw_accept_request env c d tr = (Inr q, tr') \<longleftrightarrow> node_accept_request env c d tr = (Inr q, tr')"
  by (simp_all add: as_gateway_Inr flip: as_gateway_preamble)

lemma node_preamble_talks:
  "emits (talks_to c) (node_authenticate env c ctx)" "emits (talks_to c) (node_accept_request env c d)"
  using gw_authenticate_talks [of c env "as_gateway_ctx cl ctx" for cl] gw_accept_talks [of c env d]
  by (simp_all add: emits_as_gateway flip: as_gateway_preamble)

section \<open>Serving the request\<close>

lemma node_try_reply_eq:
  "node_try_reply env c code d tr = (Inr (), tr @ [WriteAll c (reply_bytes code) (env_write env tr c d (reply_bytes code))])"
  by (simp add: node_try_reply_def node_write_all_timeout_def io_map_err_def write_all_def Let_def)

definition is_connect :: "Event \<Rightarrow> bool" where
  "is_connect e \<longleftrightarrow> (\<exists>a k. e = ConnectTo a k)"

text \<open>The reply the outcome of the connection attempt earns.\<close>

definition target_reply :: "NetFail + conn \<Rightarrow> u8" where
  "target_reply k = (case k of
     Inr _ \<Rightarrow> reply_SUCCESS
   | Inl Elapsed \<Rightarrow> reply_TTL_EXPIRED
   | Inl (Done ConnectionRefused) \<Rightarrow> reply_CONNECTION_REFUSED
   | Inl (Done _) \<Rightarrow> reply_NETWORK_UNREACHABLE)"

lemma emits_node_relay: "emits (\<lambda>e. \<not> is_connect e \<and> attempted_by c e = [] \<and> received_by c e = []) (node_relay env c s d)"
  by (auto simp: emits_def node_relay_def copy_bidirectional_def Let_def io_bind_def emit_def is_connect_def
      split: sum.split timed.split prod.split)

lemma node_serve_shape:
  fixes q env ctx tr
  defines "addr \<equiv> SocksAddr_display (rq_addr q)"
  defines "k \<equiv> env_connect env tr (nc_handshake_timeout ctx) addr"
  obtains w evs where "snd (node_serve env c ctx q tr) =
      tr @ ConnectTo addr k # WriteAll c (reply_bytes (target_reply k)) w # evs"
    "\<forall>e \<in> set evs. \<not> is_connect e \<and> attempted_by c e = [] \<and> received_by c e = []"
    "fst (node_serve env c ctx q tr) = Inr () \<longleftrightarrow> \<not> isl k \<and> w = Inr ()"
    "accepts env c \<Longrightarrow> w = Inr ()"
proof -
  let ?d = "nc_handshake_timeout ctx" and ?tr = "tr @ [ConnectTo addr k]"
  have conn: "connect_to env ?d addr tr = (k, ?tr)" by (simp add: connect_to_def k_def Let_def)
  define w where "w = env_write env ?tr c ?d (reply_bytes (target_reply k))"
  show thesis
  proof (cases k)
    case (Inl f)
    have "node_serve env c ctx q tr = (Inl (case f of Elapsed \<Rightarrow> NodeTimeout ''target connect timed out'' | Done e \<Rightarrow> NodeIo e),
        tr @ [ConnectTo addr k, WriteAll c (reply_bytes (target_reply k)) w])"
      using conn Inl unfolding addr_def
      by (cases f; auto simp: node_serve_def node_connect_target_def io_bind_def Let_def node_try_reply_eq target_reply_def
          connect_error_code_def w_def addr_def split: IoError.split)
    then show thesis using that [of w "[]"] Inl by (simp add: w_def accepts_def)
  next
    case (Inr s)
    obtain r tr2 where rel: "node_relay env c s (nc_idle_timeout ctx) (?tr @ [WriteAll c (reply_bytes reply_SUCCESS) w]) = (r, tr2)"
      by fastforce
    from emitsD [OF emits_node_relay rel] obtain evs where evs: "tr2 = (?tr @ [WriteAll c (reply_bytes reply_SUCCESS) w]) @ evs"
      "\<forall>e \<in> set evs. \<not> is_connect e \<and> attempted_by c e = [] \<and> received_by c e = []" .
    have r: "r = Inr ()" using rel
      by (auto simp: node_relay_def copy_bidirectional_def Let_def io_bind_def emit_def split: sum.splits timed.splits prod.splits)
    have "node_serve env c ctx q tr = (case w of Inl f \<Rightarrow> (Inl (case f of Elapsed \<Rightarrow> NodeTimeout ''handshake write timed out'' | Done e \<Rightarrow> NodeIo e),
          ?tr @ [WriteAll c (reply_bytes reply_SUCCESS) w]) | Inr _ \<Rightarrow> (r, tr2))"
      using conn Inr rel unfolding addr_def
      by (auto simp: node_serve_def node_connect_target_def io_bind_def Let_def node_write_all_timeout_def io_map_err_def
          write_all_def w_def target_reply_def addr_def split: sum.split)
    then show thesis using that [of w "if isl w then [] else evs"] Inr evs r
      by (cases w) (auto simp: target_reply_def w_def accepts_def)
  qed
qed

lemma node_run_parts:
  assumes "reads_exact env" and run: "node_run_with_ctx env c ctx [] = (r, tr)" and "ev \<in> set tr" "\<not> talks_to c ev"
  obtains g q pre frame where "admits (nc_auth ctx) g" "request_ok q" "rq_command q = Connect" "header_canon frame = Request_to_bytes q"
    "received c pre = greeting_bytes g @ auth_frames (nc_auth ctx) @ frame" "sent c pre = auth_answers (nc_auth ctx)"
    "\<forall>e \<in> set pre. talks_to c e" "node_serve env c ctx q pre = (r, tr)"
proof -
  let ?dt = "nc_handshake_timeout ctx"
  obtain ra tr1 where a: "node_authenticate env c ctx [] = (ra, tr1)" by fastforce
  have t1: "\<forall>e \<in> set tr1. talks_to c e" using emitsD [OF node_preamble_talks(1) a] by (metis append_Nil)
  then obtain u where ra: "ra = Inr u"
    using run a assms(3,4) by (cases ra) (auto simp: node_run_with_ctx_def io_bind_def)
  obtain rb tr2 where b: "node_accept_request env c ?dt tr1 = (rb, tr2)" by fastforce
  have t2: "\<forall>e \<in> set tr2. talks_to c e" using emitsD [OF node_preamble_talks(2) b] t1 by (metis Un_iff set_append)
  then obtain q where rb: "rb = Inr q"
    using run a ra b assms(3,4) by (cases rb) (auto simp: node_run_with_ctx_def io_bind_def)
  have "gw_authenticate env c (as_gateway_ctx undefined ctx) [] = (Inr u, tr1)" using a ra by (simp add: node_preamble_Inr(1))
  from gw_authenticate_sound [OF assms(1) this] obtain g where
    1: "admits (nc_auth ctx) g" "received c tr1 = greeting_bytes g @ auth_frames (nc_auth ctx)" "sent c tr1 = auth_answers (nc_auth ctx)"
    by (metis append_Nil as_gateway_ctx_sel(1))
  have "gw_accept_request env c ?dt tr1 = (Inr q, tr2)" using b rb by (simp add: node_preamble_Inr(2))
  from gw_accept_sound [OF assms(1) this] obtain evs where
    2: "request_ok q" "rq_command q = Connect" "tr2 = tr1 @ evs" "header_canon (received c evs) = Request_to_bytes q" "sent c evs = []"
    by blast
  have "node_serve env c ctx q tr2 = (r, tr)"
    using run a b ra rb by (simp add: node_run_with_ctx_def io_bind_def)
  with 1 2 t2 show thesis using that [of g q "received c evs" tr2] by simp
qed

definition node_ctx :: NodeContext where
  "node_ctx = \<lparr>nc_auth = None, nc_handshake_timeout = from_secs 10, nc_idle_timeout = from_secs 300\<rparr>"

lemma node_run_complete:
  assumes client: "honest_client env c (nc_auth ctx) g q rest"
  obtains pre where "node_run_with_ctx env c ctx [] = node_serve env c ctx q pre" "\<forall>e \<in> set pre. talks_to c e"
    "received c pre = greeting_bytes g @ auth_frames (nc_auth ctx) @ Request_to_bytes q" "sent c pre = auth_answers (nc_auth ctx)"
proof -
  let ?inbox = "greeting_bytes g @ auth_frames (nc_auth ctx) @ Request_to_bytes q @ rest" and ?ctx = "as_gateway_ctx undefined ctx"
  have h: "accepts env c" "delivers env c ?inbox" "admits (gc_auth ?ctx) g" "request_ok q" "rq_command q = Connect"
    using client by (simp_all add: honest_client_def)
  from gw_authenticate_complete [OF h(1-3), of "[]"] obtain tr1 where 1: "gw_authenticate env c ?ctx [] = (Inr (), tr1)"
    "received c tr1 = greeting_bytes g @ auth_frames (nc_auth ctx)" "sent c tr1 = auth_answers (nc_auth ctx)"
    "pending c ?inbox tr1 = Request_to_bytes q @ rest" by (auto simp: pending_def)
  from gw_accept_complete [OF h(2,4,5) 1(4) header_canon_Request [OF h(4)]] obtain evs where
    2: "gw_accept_request env c (nc_handshake_timeout ctx) tr1 = (Inr q, tr1 @ evs)" "received c evs = Request_to_bytes q"
    "sent c evs = []" by metis
  note n1 = 1(1) [unfolded node_preamble_Inr(1)] and n2 = 2(1) [unfolded node_preamble_Inr(2)]
  have talks: "\<forall>e \<in> set (tr1 @ evs). talks_to c e"
    using emitsD [OF node_preamble_talks(1) n1] emitsD [OF node_preamble_talks(2) n2]
    by (metis Un_iff append_Nil same_append_eq set_append)
  have "node_run_with_ctx env c ctx [] = node_serve env c ctx q (tr1 @ evs)"
    using n1 n2 by (simp add: node_run_with_ctx_def io_bind_def)
  then show thesis using that [of "tr1 @ evs"] talks 1 2 by simp
qed

lemma quiet_events:
  assumes "\<forall>e \<in> set evs. \<not> is_connect e \<and> attempted_by c e = [] \<and> received_by c e = []"
  shows "attempted c evs = []" "received c evs = []" "sent c evs = []"
proof -
  have "attempted_by c e = [] \<Longrightarrow> sent_by c e = []" for e
    by (cases "(c, e)" rule: attempted_by.cases; cases "(c, e)" rule: sent_by.cases) (auto split: if_splits)
  then show "attempted c evs = []" "received c evs = []" "sent c evs = []"
    using assms by (induction evs) auto
qed

text \<open>A node fed with exactly the gateway's greeting and request.\<close>

lemma node_session:
  assumes q: "request_ok q" "rq_command q = Connect" and node: "nc_auth ctx = None" "accepts env c"
    and inbox: "delivers env c ([5, 1, 0] @ Request_to_bytes q @ rest)"
    and k: "\<forall>tr. env_connect env tr (nc_handshake_timeout ctx) (SocksAddr_display (rq_addr q)) = k"
  obtains r tr where "node_run_with_ctx env c ctx [] = (r, tr)" "r = Inr () \<longleftrightarrow> \<not> isl k"
    "received c tr = [5, 1, 0] @ Request_to_bytes q" "sent c tr = [5, 0] @ reply_bytes (target_reply k)"
    "ConnectTo (SocksAddr_display (rq_addr q)) k \<in> set tr"
proof -
  have "honest_client env c (nc_auth ctx) \<lparr>gr_methods = [0]\<rparr> q rest"
    using assms by (simp add: honest_client_def admits_def greeting_ok_def greeting_bytes_def auth_frames_def len_as_u8_def)
  from node_run_complete [OF this] obtain pre where pre: "node_run_with_ctx env c ctx [] = node_serve env c ctx q pre"
    "received c pre = [5, 1, 0] @ Request_to_bytes q" "sent c pre = [5, 0]"
    using node(1) by (auto simp: greeting_bytes_def auth_frames_def auth_answers_def len_as_u8_def)
  let ?k = "env_connect env pre (nc_handshake_timeout ctx) (SocksAddr_display (rq_addr q))"
  have k': "?k = k" using k by simp
  obtain w evs where shape: "snd (node_serve env c ctx q pre) =
      pre @ ConnectTo (SocksAddr_display (rq_addr q)) k # WriteAll c (reply_bytes (target_reply k)) w # evs"
    "\<forall>e \<in> set evs. \<not> is_connect e \<and> attempted_by c e = [] \<and> received_by c e = []"
    "fst (node_serve env c ctx q pre) = Inr () \<longleftrightarrow> \<not> isl k" "w = Inr ()"
    using node_serve_shape [of env c ctx q pre, unfolded k'] node(2) by metis
  have "node_run_with_ctx env c ctx [] = (fst (node_serve env c ctx q pre), snd (node_serve env c ctx q pre))"
    using pre(1) by simp
  then show thesis by (rule that) (use pre shape quiet_events [OF shape(2)] in auto)
qed

section \<open>Properties\<close>

text \<open>
  C36. The gateway and the node agent have their own copies of the SOCKS5 preamble; the copies behave the same: on
  every connection and environment they read, write and decide alike, and fail with the same error.
\<close>

theorem node_preamble_is_gateways:
  "io_map_err as_gateway_error (node_authenticate env c ctx) = gw_authenticate env c (as_gateway_ctx cl ctx) \<and>
   io_map_err as_gateway_error (node_accept_request env c d) = gw_accept_request env c d"
  unfolding as_gateway_def [symmetric] by (simp add: as_gateway_preamble)

text \<open>
  C10. The node connects nowhere but where it is told to, and only after a complete preamble: if a session does anything
  but talk to the gateway, it has read exactly an admissible greeting, the required credentials and a
  CONNECT request, and its next and only connection goes to the address the request names.
\<close>

theorem node_connects_only_to_target:
  assumes "reads_exact env" and "node_run_with_ctx env c ctx [] = (r, tr)" and "ev \<in> set tr" "\<not> talks_to c ev"
  shows "\<exists>pre post k g q frame. tr = pre @ ConnectTo (SocksAddr_display (rq_addr q)) k # post \<and>
    (\<forall>a k. ConnectTo a k \<notin> set pre \<and> ConnectTo a k \<notin> set post) \<and> admits (nc_auth ctx) g \<and> request_ok q \<and> rq_command q = Connect \<and>
    header_canon frame = Request_to_bytes q \<and> received c pre = greeting_bytes g @ auth_frames (nc_auth ctx) @ frame"
proof -
  from node_run_parts [OF assms] obtain g q pre frame where
    1: "admits (nc_auth ctx) g" "request_ok q" "rq_command q = Connect" "header_canon frame = Request_to_bytes q"
    "received c pre = greeting_bytes g @ auth_frames (nc_auth ctx) @ frame" "sent c pre = auth_answers (nc_auth ctx)"
    "\<forall>e \<in> set pre. talks_to c e" "node_serve env c ctx q pre = (r, tr)" .
  let ?k = "env_connect env pre (nc_handshake_timeout ctx) (SocksAddr_display (rq_addr q))"
  obtain w evs where 2: "tr = pre @ ConnectTo (SocksAddr_display (rq_addr q)) ?k # WriteAll c (reply_bytes (target_reply ?k)) w # evs"
    "\<forall>e \<in> set evs. \<not> is_connect e \<and> attempted_by c e = [] \<and> received_by c e = []"
    using node_serve_shape [of env c ctx q pre] 1(8) by (metis snd_conv)
  have "\<forall>a k. ConnectTo a k \<notin> set pre \<and> ConnectTo a k \<notin> set (WriteAll c (reply_bytes (target_reply ?k)) w # evs)"
    using 1(7) 2(2) by (auto simp: is_connect_def talks_to_def)
  with 1 2(1) show ?thesis by blast
qed

theorem node_connects_only_to_target_witness:
  "\<exists>pre post k. snd (node_run_with_ctx (script_env (\<lambda>_. [5, 1, 0] @ Request_to_bytes sample_connect)) 0 node_ctx []) =
     pre @ ConnectTo ''ab:80'' k # post"
proof -
  let ?env = "script_env (\<lambda>_. [5, 1, 0] @ Request_to_bytes sample_connect)"
  have addr: "SocksAddr_display (rq_addr sample_connect) = ''ab:80''"
    by code_simp
  have ok: "request_ok sample_connect" "rq_command sample_connect = Connect" "nc_auth node_ctx = None"
    by (simp_all add: sample_connect_def request_ok_def is_rust_string_ascii node_ctx_def)
  have inbox: "delivers ?env 0 ([5, 1, 0] @ Request_to_bytes sample_connect @ [])"
    using script_env_ok(3) [of "\<lambda>_. [5, 1, 0] @ Request_to_bytes sample_connect" 0] by simp
  have k: "\<forall>tr. env_connect ?env tr (nc_handshake_timeout node_ctx) (SocksAddr_display (rq_addr sample_connect)) = Inr 1"
    by (simp add: script_env_ok)
  obtain r tr where run: "node_run_with_ctx ?env 0 node_ctx [] = (r, tr)" and conn: "ConnectTo ''ab:80'' (Inr 1) \<in> set tr"
    using node_session [OF ok script_env_ok(2) inbox k] addr by metis
  from node_connects_only_to_target [OF script_env_ok(1) run conn talks_to_simps(4)] obtain pre post k and q :: Request where
    "tr = pre @ ConnectTo (SocksAddr_display (rq_addr q)) k # post" "\<forall>a k. ConnectTo a k \<notin> set pre \<and> ConnectTo a k \<notin> set post"
    by blast
  moreover from this conn have "SocksAddr_display (rq_addr q) = ''ab:80''" by auto
  ultimately show ?thesis using run by auto
qed

text \<open>
  C35. How the node answers the gateway: one reply, written after the connection attempt, whose code
  says what became of it (succeeded, refused, timed out, or unreachable for any other failure); the session succeeds exactly
  when the target was reached and the reply got through, whatever becomes of the relay.
\<close>

theorem node_reply_codes:
  "\<exists>w evs. snd (node_serve env c ctx q tr) = tr @ evs \<and>
     attempted c evs = [reply_bytes (case env_connect env tr (nc_handshake_timeout ctx) (SocksAddr_display (rq_addr q)) of
        Inr _ \<Rightarrow> reply_SUCCESS
      | Inl Elapsed \<Rightarrow> reply_TTL_EXPIRED
      | Inl (Done ConnectionRefused) \<Rightarrow> reply_CONNECTION_REFUSED
      | Inl (Done _) \<Rightarrow> reply_NETWORK_UNREACHABLE)] \<and>
     WriteAll c (hd (attempted c evs)) w \<in> set evs \<and>
     (fst (node_serve env c ctx q tr) = Inr () \<longleftrightarrow>
       \<not> isl (env_connect env tr (nc_handshake_timeout ctx) (SocksAddr_display (rq_addr q))) \<and> w = Inr ())"
proof -
  show ?thesis
    by (rule node_serve_shape [of env c ctx q tr]) (use quiet_events(1) in \<open>force simp: target_reply_def\<close>)
qed

end
