(* ===== verification/Node_Server.thy ===== *)
theory Node_Server
  imports Node_Handler Common_Config Polling
begin

text \<open>
  The node agent's server, from \<^verbatim>\<open>server.rs\<close> and \<^verbatim>\<open>cp_client.rs\<close>: start-up and registration, the accept
  loop with its semaphore and its connection tasks, the statistics, the heartbeat loop and the
  shutdown. The tasks interleave at their atomic operations, as a step relation. tokio's
  semaphore is modelled by its number of free permits; it is never closed, so acquiring
  never fails.
\<close>

section \<open>The control plane client\<close>

definition client_post :: "Env \<Rightarrow> string \<Rightarrow> ControlPlaneClient \<Rightarrow> string \<Rightarrow> HttpPayload \<Rightarrow> (string, unit) session" where
  "client_post env verb client url payload =
     io_bind (io_map_err (\<lambda>e. ''control plane unreachable: '' @ e) (post env (authed client url payload))) (\<lambda>resp.
     if \<not> is_success (hr_status resp)
     then io_fail (verb @ '' failed ('' @ env_status_string env (hr_status resp) @ ''): '' @ hr_text resp)
     else io_return ())"

definition client_register :: "Env \<Rightarrow> ControlPlaneClient \<Rightarrow> RegisterPayload \<Rightarrow> (string, unit) session" where
  "client_register env client payload =
     client_post env ''register'' client (cl_base_url client @ ''/nodes/register'') (RegisterJson payload)"

definition client_heartbeat :: "Env \<Rightarrow> ControlPlaneClient \<Rightarrow> string \<Rightarrow> HeartbeatPayload \<Rightarrow> (string, unit) session" where
  "client_heartbeat env client node_id payload =
     client_post env ''heartbeat'' client (cl_base_url client @ ''/nodes/'' @ node_id @ ''/heartbeat'') (HeartbeatJson payload)"

section \<open>Statistics and start-up\<close>

record NodeStats =
  st_bytes_up :: u64
  st_bytes_down :: u64
  st_active_connections :: u32

definition NodeStats_new :: NodeStats where
  "NodeStats_new = \<lparr>st_bytes_up = 0, st_bytes_down = 0, st_active_connections = 0\<rparr>"

definition snapshot_and_reset :: "NodeStats \<Rightarrow> (u64 \<times> u64 \<times> u32) \<times> NodeStats" where
  "snapshot_and_reset s =
     (let up = st_bytes_up s; s = s\<lparr>st_bytes_up := 0\<rparr>;
          down = st_bytes_down s; s = s\<lparr>st_bytes_down := 0\<rparr>;
          active = st_active_connections s in
      ((up, down, active), s))"

record NodeServer =
  nsv_config :: NodeConfig
  nsv_client :: ControlPlaneClient

definition NodeServer_new :: "NodeConfig \<Rightarrow> NodeServer" where
  "NodeServer_new config =
     \<lparr>nsv_config = config, nsv_client = ControlPlaneClient_new (ndc_control_plane_url config) (ndc_api_token config)\<rparr>"

definition registration :: "NodeConfig \<Rightarrow> RegisterPayload" where
  "registration config =
     \<lparr>rp_node_id = ndc_node_id config,
      rp_address = (case ndc_advertised_address config of Some a \<Rightarrow> a | None \<Rightarrow> SocketAddr_display (ndc_bind_addr config)),
      rp_max_connections = word_of_nat (ndc_max_connections config),
      rp_bandwidth_limit = ndc_bandwidth_limit config\<rparr>"

definition server_context :: NodeContext where
  "server_context = \<lparr>nc_auth = None, nc_handshake_timeout = from_secs 10, nc_idle_timeout = from_secs 300\<rparr>"

definition record_heartbeat :: "MetricCall list" where
  "record_heartbeat = [CounterAdd ''node_heartbeats_total'' 1]"

definition record_heartbeat_error :: "MetricCall list" where
  "record_heartbeat_error = [CounterAdd ''node_heartbeat_errors_total'' 1]"

section \<open>The running server\<close>

text \<open>
  A connection task waits for a permit, holds it (admitted), counts itself (active), and after its session
  uncounts itself (closing) and drops the permit. \<open>sv_trace\<close> has the calls to the control plane.
\<close>

record Server =
  sv_stats :: NodeStats
  sv_permits :: nat
  sv_waiting :: nat
  sv_admitted :: nat
  sv_active :: nat
  sv_closing :: nat
  sv_accepting :: bool
  sv_beating :: bool
  sv_cancelled :: bool
  sv_trace :: trace

definition heartbeat_payload :: "u64 \<Rightarrow> u64 \<times> u64 \<times> u32 \<Rightarrow> HeartbeatPayload" where
  "heartbeat_payload bandwidth_limit snap = (case snap of (up, down, active) \<Rightarrow>
     \<lparr>hp_active_connections = active, hp_bytes_up = up, hp_bytes_down = down, hp_latency_ms = 0,
      hp_available_bandwidth = bandwidth_limit\<rparr>)"

text \<open>
  One tick of \<^verbatim>\<open>heartbeat_loop\<close>, its three reads of the counters and the request taken together. The server
  starts once its listener is bound; when binding fails, it returns after the registration and serves nothing.
\<close>

definition heartbeat_tick :: "Env \<Rightarrow> NodeServer \<Rightarrow> Server \<Rightarrow> Server" where
  "heartbeat_tick env srv s =
     (let (snap, stats) = snapshot_and_reset (sv_stats s);
          hb = heartbeat_payload (ndc_bandwidth_limit (nsv_config srv)) snap in
      case client_heartbeat env (nsv_client srv) (ndc_node_id (nsv_config srv)) hb (sv_trace s) of
        (Inr _, tr) \<Rightarrow> s\<lparr>sv_stats := stats, sv_trace := tr @ map Metric record_heartbeat\<rparr>
      | (Inl e, tr) \<Rightarrow> s\<lparr>sv_stats := stats, sv_trace := tr @ map Metric record_heartbeat_error\<rparr>)"

definition server_start :: "Env \<Rightarrow> NodeServer \<Rightarrow> Server" where
  "server_start env srv =
     \<lparr>sv_stats = NodeStats_new, sv_permits = ndc_max_connections (nsv_config srv), sv_waiting = 0, sv_admitted = 0,
      sv_active = 0, sv_closing = 0, sv_accepting = True, sv_beating = True, sv_cancelled = False,
      sv_trace = snd (client_register env (nsv_client srv) (registration (nsv_config srv)) [])\<rparr>"

inductive server_step :: "Env \<Rightarrow> NodeServer \<Rightarrow> Server \<Rightarrow> Server \<Rightarrow> bool"
  for env :: Env and srv :: NodeServer where
  accept: "sv_accepting s \<Longrightarrow> server_step env srv s (s\<lparr>sv_waiting := sv_waiting s + 1\<rparr>)"
| accept_failed: "sv_accepting s \<Longrightarrow> server_step env srv s s"
| acquire: "sv_waiting s = Suc n \<Longrightarrow> sv_permits s = Suc m \<Longrightarrow> \<not> sv_cancelled s \<Longrightarrow>
    server_step env srv s (s\<lparr>sv_waiting := n, sv_permits := m, sv_admitted := sv_admitted s + 1\<rparr>)"
| dropped: "sv_waiting s = Suc n \<Longrightarrow> sv_permits s = Suc m \<Longrightarrow> sv_cancelled s \<Longrightarrow>
    server_step env srv s (s\<lparr>sv_waiting := n\<rparr>)"
| count_up: "sv_admitted s = Suc n \<Longrightarrow>
    server_step env srv s (s\<lparr>sv_admitted := n, sv_active := sv_active s + 1,
      sv_stats := (sv_stats s)\<lparr>st_active_connections := st_active_connections (sv_stats s) + 1\<rparr>\<rparr>)"
| count_down: "sv_active s = Suc n \<Longrightarrow>
    server_step env srv s (s\<lparr>sv_active := n, sv_closing := sv_closing s + 1,
      sv_stats := (sv_stats s)\<lparr>st_active_connections := st_active_connections (sv_stats s) - 1\<rparr>\<rparr>)"
| release: "sv_closing s = Suc n \<Longrightarrow>
    server_step env srv s (s\<lparr>sv_closing := n, sv_permits := sv_permits s + 1\<rparr>)"
| tick: "sv_beating s \<Longrightarrow> server_step env srv s (heartbeat_tick env srv s)"
| cancel: "server_step env srv s (s\<lparr>sv_cancelled := True\<rparr>)"
| stop_accepting: "sv_accepting s \<Longrightarrow> sv_cancelled s \<Longrightarrow> server_step env srv s (s\<lparr>sv_accepting := False\<rparr>)"
| stop_beating: "sv_beating s \<Longrightarrow> sv_cancelled s \<or> \<not> sv_accepting s \<Longrightarrow> server_step env srv s (s\<lparr>sv_beating := False\<rparr>)"

inductive_cases server_stepE: "server_step env srv s s'"

inductive server_reach :: "Env \<Rightarrow> NodeServer \<Rightarrow> Server \<Rightarrow> bool" for env :: Env and srv :: NodeServer where
  start: "server_reach env srv (server_start env srv)"
| step: "server_reach env srv s \<Longrightarrow> server_step env srv s s' \<Longrightarrow> server_reach env srv s'"

text \<open>
  The wait for running sessions at shutdown: pass \<open>i\<close> finds \<open>active i\<close> sessions and \<open>elapsed i\<close> on
  the clock; before each pass but the first the loop sleeps 50 ms.
\<close>

definition node_drain_deadline :: Duration where
  "node_drain_deadline = from_secs 10"

definition node_drain_pause :: Duration where
  "node_drain_pause = from_millis 50"

partial_function (option) node_drain_loop :: "(nat \<Rightarrow> u32) \<Rightarrow> (nat \<Rightarrow> Duration) \<Rightarrow> nat \<Rightarrow> nat option" where
  "node_drain_loop active elapsed i =
     (if active i = 0 \<or> elapsed i \<ge> node_drain_deadline then Some i else node_drain_loop active elapsed (Suc i))"

section \<open>The shutdown loop\<close>

interpretation node_drain: polling_loop "node_drain_loop active elapsed" "\<lambda>i. active i = 0 \<or> elapsed i \<ge> node_drain_deadline"
  by unfold_locales (rule node_drain_loop.simps)

section \<open>What the server keeps\<close>

definition is_register :: "Event \<Rightarrow> bool" where
  "is_register e \<longleftrightarrow> (\<exists>call r p. e = Post call r \<and> hc_payload call = RegisterJson p)"

definition beat_ok :: "NodeServer \<Rightarrow> Event \<Rightarrow> bool" where
  "beat_ok srv e \<longleftrightarrow> (\<forall>call r hb. e = Post call r \<and> hc_payload call = HeartbeatJson hb \<longrightarrow>
     hp_bytes_up hb = 0 \<and> hp_bytes_down hb = 0 \<and>
     unat (hp_active_connections hb) \<le> ndc_max_connections (nsv_config srv))"

lemma event_simps [simp]:
  "\<not> is_register (Metric m)" "beat_ok srv (Metric m)"
  "is_register (Post call r) \<longleftrightarrow> (\<exists>p. hc_payload call = RegisterJson p)"
  by (simp_all add: is_register_def beat_ok_def)

definition server_inv :: "NodeServer \<Rightarrow> Server \<Rightarrow> bool" where
  "server_inv srv s \<longleftrightarrow>
     sv_permits s + sv_admitted s + sv_active s + sv_closing s = ndc_max_connections (nsv_config srv) \<and>
     st_active_connections (sv_stats s) = word_of_nat (sv_active s) \<and>
     st_bytes_up (sv_stats s) = 0 \<and> st_bytes_down (sv_stats s) = 0 \<and>
     length (filter is_register (sv_trace s)) = 1 \<and> (\<forall>e \<in> set (sv_trace s). beat_ok srv e)"

lemma snd_client_post:
  "snd (client_post env verb client url payload tr) =
     tr @ [Post (authed client url payload) (map_err Done (env_post env tr (authed client url payload)))]"
  by (auto simp: client_post_def io_bind_def io_map_err_def post_def Let_def map_err_def split: sum.split prod.split)

lemma unat_word_of_nat_le: "unat (word_of_nat n :: u32) \<le> n"
  by (simp add: unat_of_nat)

lemma heartbeat_tick_eq:
  defines "call \<equiv> \<lambda>srv s. authed (nsv_client srv) (cl_base_url (nsv_client srv) @ ''/nodes/'' @ ndc_node_id (nsv_config srv) @ ''/heartbeat'')
    (HeartbeatJson \<lparr>hp_active_connections = st_active_connections (sv_stats s), hp_bytes_up = st_bytes_up (sv_stats s),
       hp_bytes_down = st_bytes_down (sv_stats s), hp_latency_ms = 0, hp_available_bandwidth = ndc_bandwidth_limit (nsv_config srv)\<rparr>)"
  shows "\<exists>r m. heartbeat_tick env srv s = s\<lparr>sv_stats := (sv_stats s)\<lparr>st_bytes_up := 0, st_bytes_down := 0\<rparr>,
    sv_trace := sv_trace s @ [Post (call srv s) r, Metric m]\<rparr>"
proof -
  let ?hb = "heartbeat_payload (ndc_bandwidth_limit (nsv_config srv)) (fst (snapshot_and_reset (sv_stats s)))"
  obtain r tr where run: "client_heartbeat env (nsv_client srv) (ndc_node_id (nsv_config srv)) ?hb (sv_trace s) = (r, tr)" by fastforce
  have "tr = sv_trace s @ [Post (call srv s) (map_err Done (env_post env (sv_trace s) (call srv s)))]"
    using arg_cong [OF run, of snd]
    by (simp add: client_heartbeat_def snd_client_post call_def heartbeat_payload_def snapshot_and_reset_def Let_def)
  then show ?thesis
    using run by (cases r) (auto simp: heartbeat_tick_def snapshot_and_reset_def record_heartbeat_def record_heartbeat_error_def Let_def)
qed

lemma server_inv_start: "server_inv srv (server_start env srv)"
  by (simp add: server_inv_def server_start_def NodeStats_new_def client_register_def snd_client_post is_register_def beat_ok_def authed_def)

lemma server_inv_step:
  assumes "server_inv srv s" "server_step env srv s s'"
  shows "server_inv srv s'"
  using assms(2)
proof (cases rule: server_step.cases)
  case tick
  obtain call r m hb where s': "s' = s\<lparr>sv_stats := (sv_stats s)\<lparr>st_bytes_up := 0, st_bytes_down := 0\<rparr>,
      sv_trace := sv_trace s @ [Post call r, Metric m]\<rparr>" and hb: "hc_payload call = HeartbeatJson hb"
      "hp_active_connections hb = st_active_connections (sv_stats s)" "hp_bytes_up hb = st_bytes_up (sv_stats s)"
      "hp_bytes_down hb = st_bytes_down (sv_stats s)"
    using heartbeat_tick_eq [of env srv s] tick(1) by (auto simp: authed_def)
  have "unat (st_active_connections (sv_stats s)) \<le> ndc_max_connections (nsv_config srv)"
    using assms(1) unat_word_of_nat_le [of "sv_active s"] by (simp add: server_inv_def)
  then have "beat_ok srv (Post call r)" using hb assms(1) by (simp add: beat_ok_def server_inv_def)
  then show ?thesis using assms(1) hb(1) by (simp add: s' server_inv_def)
qed (use assms(1) in \<open>auto simp: server_inv_def\<close>)

lemma server_inv_reach: "server_reach env srv s \<Longrightarrow> server_inv srv s"
  by (induction rule: server_reach.induct) (auto intro: server_inv_start server_inv_step)

section \<open>Properties\<close>

definition sample_node_config :: NodeConfig where
  "sample_node_config = \<lparr>ndc_node_id = ''n1'', ndc_control_plane_url = ''http://cp:8080'', ndc_api_token = None,
     ndc_bind_addr = SocketAddr (V4 0 0 0 0) 1080, ndc_advertised_address = None, ndc_bandwidth_limit = default_bandwidth_limit,
     ndc_max_connections = 2, ndc_heartbeat_interval = default_heartbeat_interval,
     ndc_upstream_timeout = default_upstream_timeout, ndc_logging = LoggingConfig_default\<rparr>"

text \<open>A run that admits one connection and reports it.\<close>

definition sample_admitted :: "Env \<Rightarrow> Server" where
  "sample_admitted env = (server_start env (NodeServer_new sample_node_config))
     \<lparr>sv_waiting := 0, sv_permits := 1, sv_admitted := 0, sv_active := 1,
      sv_stats := \<lparr>st_bytes_up = 0, st_bytes_down = 0, st_active_connections = 1\<rparr>\<rparr>"

lemma sample_admitted_reach: "server_reach env (NodeServer_new sample_node_config) (sample_admitted env)"
proof -
  let ?srv = "NodeServer_new sample_node_config" and ?s0 = "server_start env (NodeServer_new sample_node_config)"
  have "server_reach env ?srv ?s0" by (rule start)
  from step [OF this accept] have "server_reach env ?srv (?s0\<lparr>sv_waiting := 1\<rparr>)" by (simp add: server_start_def)
  from step [OF this acquire [where n = 0 and m = 1]]
  have "server_reach env ?srv (?s0\<lparr>sv_waiting := 0, sv_permits := 1, sv_admitted := 1\<rparr>)"
    by (simp add: server_start_def NodeServer_new_def sample_node_config_def)
  from step [OF this count_up [where n = 0]] show ?thesis
    by (simp add: server_start_def sample_admitted_def NodeStats_new_def)
qed

text \<open>
  C37. The node's connection limit and count. With a configured limit below \<open>2 ^ 32\<close>, in every reachable state, under any interleaving of accepts, connection tasks,
  heartbeats and shutdown, the tasks holding a permit and the free permits add up to the configured limit; so at
  most that many sessions run, and the wrapping 32-bit counter that heartbeats report is exactly the number
  of running sessions.
\<close>

theorem node_server_counts:
  assumes "server_reach env srv s" and "ndc_max_connections (nsv_config srv) < 2 ^ 32"
  shows "sv_permits s + sv_admitted s + sv_active s + sv_closing s = ndc_max_connections (nsv_config srv) \<and>
    unat (st_active_connections (sv_stats s)) = sv_active s"
proof -
  have inv: "server_inv srv s" by (rule server_inv_reach [OF assms(1)])
  then have "sv_active s < 2 ^ 32" using assms(2) by (simp add: server_inv_def)
  then show ?thesis using inv by (simp add: server_inv_def unat_of_nat)
qed

theorem node_server_counts_witness:
  "unat (st_active_connections (sv_stats (sample_admitted (script_env (\<lambda>_. []))))) = 1"
  using node_server_counts [OF sample_admitted_reach, of "script_env (\<lambda>_. [])"]
  by (simp add: sample_admitted_def NodeServer_new_def sample_node_config_def)

text \<open>
  C38. What the node tells the control plane. It tries to register once, at start-up, and never again, whatever the
  outcome; and every heartbeat it ever sends reports zero bytes in both directions and at most the
  configured number of connections.
\<close>

theorem node_reports:
  assumes "server_reach env srv s"
  shows "length (filter is_register (sv_trace s)) = 1 \<and>
    (\<forall>call r hb. Post call r \<in> set (sv_trace s) \<and> hc_payload call = HeartbeatJson hb \<longrightarrow>
       hp_bytes_up hb = 0 \<and> hp_bytes_down hb = 0 \<and> unat (hp_active_connections hb) \<le> ndc_max_connections (nsv_config srv))"
  using server_inv_reach [OF assms] by (auto simp: server_inv_def beat_ok_def)

theorem node_reports_witness:
  "length (filter is_register (sv_trace (sample_admitted (script_env (\<lambda>_. []))))) = 1"
  using node_reports [OF sample_admitted_reach] by blast

text \<open>
  Once the shutdown is signalled no further connection is admitted, in any interleaving, so the
  number of connections in progress never grows again.
\<close>

lemma node_shutdown_admits_none:
  assumes "server_step env srv s s'" and "sv_cancelled s"
  shows "sv_cancelled s' \<and> sv_admitted s' \<le> sv_admitted s \<and>
    sv_admitted s' + sv_active s' + sv_closing s' \<le> sv_admitted s + sv_active s + sv_closing s"
  using assms(1)
proof (cases rule: server_step.cases)
  case tick
  then show ?thesis using heartbeat_tick_eq [of env srv s] assms(2) by auto
qed (use assms(2) in auto)

text \<open>
  Shutdown returns: the loop that waits for running sessions ends, at the latest after 200 pauses of 50 ms, with
  no session left or the ten seconds over, and not before one of the two holds.
\<close>

lemma node_drain_returns:
  assumes "\<forall>i. elapsed i + node_drain_pause \<le> elapsed (Suc i)"
  shows "\<exists>n. n \<le> 200 \<and> node_drain_loop active elapsed 0 = Some n \<and> (active n = 0 \<or> elapsed n \<ge> node_drain_deadline) \<and>
    (\<forall>k. k < n \<longrightarrow> active k \<noteq> 0 \<and> elapsed k < node_drain_deadline)"
proof -
  have "node_drain_deadline \<le> elapsed 200"
    using paced_clock [OF assms, of 200] by (simp add: node_drain_deadline_def node_drain_pause_def from_millis_def from_secs_def)
  then show ?thesis using node_drain.loop_returns [of active 200 elapsed 0] by (auto simp: not_le)
qed

end
