(* ===== verification/Rustproxy_Main.thy ===== *)
theory Rustproxy_Main
  imports CP_Server Gateway_Server Node_Server
begin

text \<open>
  The binary, from \<^verbatim>\<open>main.rs\<close>: what each subcommand reads, opens and starts. The result of a run is the server it
  hands control to, in its initial state; the servers' own theories take it from there. The file system, the TOML decoder, SQLite and
  the binding of the listener are other code: whether they fail, and what a file decodes to, is decided by the environment. Of a
  database file the model keeps whether the schema of \<^verbatim>\<open>migrations/0001_init.sql\<close> is there, and the table.
\<close>

section \<open>The world of the binary\<close>

datatype DbFile = Unmigrated | WithSchema Db

datatype MainError = FromCommon CommonError | Anyhow string

record MainEnv =
  me_read_to_string :: "string \<Rightarrow> string + string"
  me_toml_gateway :: "string \<Rightarrow> string + GatewayConfig"
  me_toml_node :: "string \<Rightarrow> string + NodeConfig"
  me_toml_control_plane :: "string \<Rightarrow> string + ControlPlaneConfig"
  me_open_error :: "string \<Rightarrow> string option"
  me_migrate_error :: "string \<Rightarrow> string option"
  me_bind_error :: "SocketAddr \<Rightarrow> string option"

record World =
  w_files :: "string \<Rightarrow> DbFile option"
  w_logging :: "(LogLevel \<times> bool) list"

type_synonym 'a main = "(World, MainError, 'a) io"

definition fails_with :: "string option \<Rightarrow> MainError + unit" where
  "fails_with e = (case e of None \<Rightarrow> Inr () | Some msg \<Rightarrow> Inl (Anyhow msg))"

definition load_config :: "MainEnv \<Rightarrow> (string \<Rightarrow> string + 'c) \<Rightarrow> ServiceArgs \<Rightarrow> 'c main" where
  "load_config env toml args = io_lift (map_err FromCommon (load (me_read_to_string env) toml (sa_config args)))"

definition logging_init :: "LogLevel \<Rightarrow> bool \<Rightarrow> unit main" where
  "logging_init level json = io_modify (\<lambda>w. w\<lparr>w_logging := w_logging w @ [(level, json)]\<rparr>)"

section \<open>Databases\<close>

definition open_sqlite :: "MainEnv \<Rightarrow> string \<Rightarrow> string main" where
  "open_sqlite env path =
     io_bind (io_lift (fails_with (me_open_error env path))) (\<lambda>_.
     io_bind (io_modify (\<lambda>w. w\<lparr>w_files := (w_files w)(path \<mapsto>
       (case w_files w path of None \<Rightarrow> Unmigrated | Some f \<Rightarrow> f))\<rparr>)) (\<lambda>_.
       io_return path))"

fun init_schema :: "DbFile \<Rightarrow> DbFile" where
  "init_schema Unmigrated = WithSchema empty_db"
| "init_schema (WithSchema db) = WithSchema db"

definition migrate :: "MainEnv \<Rightarrow> string \<Rightarrow> unit main" where
  "migrate env pool =
     io_bind (io_lift (fails_with (me_migrate_error env pool))) (\<lambda>_.
       io_modify (\<lambda>w. w\<lparr>w_files := (w_files w)(pool := map_option init_schema (w_files w pool))\<rparr>))"

text \<open>The table behind an open pool.\<close>

definition pool_db :: "string \<Rightarrow> World \<Rightarrow> Db" where
  "pool_db pool w = (case w_files w pool of Some (WithSchema db) \<Rightarrow> db | _ \<Rightarrow> empty_db)"

section \<open>Subcommands\<close>

datatype Started =
  RunGateway Gateway
| RunNode NodeServer
| RunControlPlane AppState "Db CpState" Duration
| Migrated

fun main :: "CpEnv \<Rightarrow> MainEnv \<Rightarrow> CliCommand \<Rightarrow> Started main" where
  "main e env (GatewayCmd args) =
     io_bind (load_config env (me_toml_gateway env) args) (\<lambda>cfg.
     io_bind (logging_init (effective_level args (gwc_logging cfg)) (lc_json (gwc_logging cfg))) (\<lambda>_.
       let client = ControlPlaneClient_new (gwc_control_plane_url cfg) (gwc_api_token cfg) in
       io_return (RunGateway (Gateway_new cfg client))))"
| "main e env (NodeCmd args) =
     io_bind (load_config env (me_toml_node env) args) (\<lambda>cfg.
     io_bind (logging_init (effective_level args (ndc_logging cfg)) (lc_json (ndc_logging cfg))) (\<lambda>_.
       io_return (RunNode (NodeServer_new cfg))))"
| "main e env (ControlPlaneCmd args) =
     io_bind (load_config env (me_toml_control_plane env) args) (\<lambda>cfg.
     io_bind (logging_init (effective_level args (cpc_logging cfg)) (lc_json (cpc_logging cfg))) (\<lambda>_.
     io_bind (open_sqlite env (cpc_sqlite_path cfg)) (\<lambda>pool.
     io_bind (migrate env pool) (\<lambda>_.
       let service = ControlPlaneService_new (SqliteNodeRepository e) HealthPolicy_default;
           state = app_state service (cpc_api_token cfg) in
       io_bind (io_lift (fails_with (me_bind_error env (cpc_bind_addr cfg)))) (\<lambda>_ w.
         (Inr (RunControlPlane state (service_start (pool_db pool w)) (cpc_sweep_interval cfg)), w))))))"
| "main e env (MigrateCmd args) =
     io_bind (load_config env (me_toml_control_plane env) args) (\<lambda>cfg.
     io_bind (logging_init (effective_level args (cpc_logging cfg)) (lc_json (cpc_logging cfg))) (\<lambda>_.
     io_bind (open_sqlite env (cpc_sqlite_path cfg)) (\<lambda>pool.
     io_bind (migrate env pool) (\<lambda>_.
       io_return Migrated))))"

section \<open>Facts\<close>

lemma fails_with_Inr [simp]: "fails_with e = Inr u \<longleftrightarrow> e = None"
  by (simp add: fails_with_def split: option.split)

lemma load_config_run: "load_config env toml args w = (r, w') \<longleftrightarrow>
    w' = w \<and> r = map_err FromCommon (load (me_read_to_string env) toml (sa_config args))"
  by (auto simp: load_config_def)

text \<open>No file that has a table loses or changes it, however the run ends.\<close>

definition grows :: "World \<Rightarrow> World \<Rightarrow> bool" where
  "grows w w' \<longleftrightarrow> (\<forall>path db. w_files w path = Some (WithSchema db) \<longrightarrow> w_files w' path = Some (WithSchema db))"

definition careful :: "'a main \<Rightarrow> bool" where
  "careful m \<longleftrightarrow> (\<forall>w. grows w (snd (m w)))"

lemma careful_bind: "careful m \<Longrightarrow> (\<And>x. careful (f x)) \<Longrightarrow> careful (io_bind m f)"
  unfolding careful_def grows_def io_bind_def by (auto split: prod.split sum.split) (metis snd_conv)+

lemma careful_pure: "careful (io_return x)" "careful (io_lift r)" "careful (\<lambda>w. (g w, w))"
  by (simp_all add: careful_def grows_def)

lemma careful_modify: "(\<And>w. grows w (g w)) \<Longrightarrow> careful (io_modify g)"
  by (simp add: careful_def)

lemma careful_calls: "careful (load_config env toml args)" "careful (logging_init l j)" "careful (open_sqlite env p)" "careful (migrate env p)"
  unfolding load_config_def logging_init_def open_sqlite_def migrate_def
  by (auto intro!: careful_bind careful_pure careful_modify simp: grows_def)

lemma main_careful: "careful (main e env cmd)"
  by (cases cmd) (simp_all only: main.simps Let_def, (intro careful_bind careful_pure careful_calls)+)

lemma open_sqlite_run:
  "open_sqlite env path w = (Inr pool, w') \<longleftrightarrow> me_open_error env path = None \<and> pool = path \<and>
     w' = w\<lparr>w_files := (w_files w)(path \<mapsto> (case w_files w path of None \<Rightarrow> Unmigrated | Some f \<Rightarrow> f))\<rparr>"
  by (auto simp: open_sqlite_def io_bind_eq_Inr)

lemma migrate_run:
  "migrate env pool w = (Inr u, w') \<longleftrightarrow> me_migrate_error env pool = None \<and>
     w' = w\<lparr>w_files := (w_files w)(pool := map_option init_schema (w_files w pool))\<rparr>"
  by (auto simp: migrate_def io_bind_eq_Inr)

text \<open>The table a control plane starts from: the one in the file, or an empty one.\<close>

definition stored_db :: "World \<Rightarrow> string \<Rightarrow> Db" where
  "stored_db w path = (case w_files w path of Some (WithSchema db) \<Rightarrow> db | _ \<Rightarrow> empty_db)"

lemma main_control_plane_run:
  assumes "main e env (ControlPlaneCmd args) w = (Inr r, w')"
  obtains cfg where "load (me_read_to_string env) (me_toml_control_plane env) (sa_config args) = Inr cfg"
    "r = RunControlPlane (app_state (from_repo_sql e HealthPolicy_default) (cpc_api_token cfg))
       (service_start (stored_db w (cpc_sqlite_path cfg))) (cpc_sweep_interval cfg)"
proof -
  from assms obtain cfg w1 w2 w3 pool where
    c: "load_config env (me_toml_control_plane env) args w = (Inr cfg, w)"
    and l: "logging_init (effective_level args (cpc_logging cfg)) (lc_json (cpc_logging cfg)) w = (Inr (), w1)"
    and o: "open_sqlite env (cpc_sqlite_path cfg) w1 = (Inr pool, w2)" and m: "migrate env pool w2 = (Inr (), w3)"
    and r: "r = RunControlPlane (app_state (ControlPlaneService_new (SqliteNodeRepository e) HealthPolicy_default) (cpc_api_token cfg))
      (service_start (pool_db pool w3)) (cpc_sweep_interval cfg)"
    by (auto simp: io_bind_eq_Inr Let_def load_config_run)
  have w1: "w_files w1 = w_files w" using l by (auto simp: logging_init_def)
  have "pool_db pool w3 = stored_db w (cpc_sqlite_path cfg)"
    using o m w1 by (auto simp: open_sqlite_run migrate_run pool_db_def stored_db_def split: option.split DbFile.split)
  moreover have "load (me_read_to_string env) (me_toml_control_plane env) (sa_config args) = Inr cfg"
    using c by (cases "load (me_read_to_string env) (me_toml_control_plane env) (sa_config args)") (simp_all add: load_config_run)
  ultimately show thesis using that r by (simp add: from_repo_sql_def)
qed

section \<open>Properties\<close>

text \<open>
  C15. What the binary does to stored registries, and what \<^verbatim>\<open>rustproxy control-plane\<close> starts. No command loses
  or alters a stored registry before its server runs, whether it ends with a server to run, with nothing left to do, or with an error. If the
  control plane starts, it serves the registry stored in the configured file, or an empty one; requests need a token exactly when a
  non-empty one is configured; a node counts as offline after 30 seconds of silence, whatever \<^verbatim>\<open>offline_timeout\<close> the
  configuration sets; and from there on the server keeps the registry consistent, and every stored node in it, in every state it can reach.
\<close>

theorem main_starts_control_plane:
  assumes "env_ok e" "\<forall>path db. w_files w path = Some (WithSchema db) \<longrightarrow> db_inv e db"
  shows "(\<forall>cmd path db. w_files w path = Some (WithSchema db) \<longrightarrow> w_files (snd (main e env cmd w)) path = Some (WithSchema db)) \<and>
    (\<forall>args r w'. main e env (ControlPlaneCmd args) w = (Inr r, w') \<longrightarrow>
      (\<exists>cfg app st. load (me_read_to_string env) (me_toml_control_plane env) (sa_config args) = Inr cfg \<and>
       r = RunControlPlane app st (cpc_sweep_interval cfg) \<and>
       cp_db st = stored_db w (cpc_sqlite_path cfg) \<and>
       (app_auth app = AuthNone \<longleftrightarrow> cpc_api_token cfg = None \<or> cpc_api_token cfg = Some []) \<and>
       hp_offline_timeout (svc_policy (app_service app)) = from_secs 30 \<and>
       (\<forall>ae s. cp_server_reach ae (utc_now e) app st s \<longrightarrow> db_inv e (cp_db (cs_state s)) \<and>
          dom (db_map e (stored_db w (cpc_sqlite_path cfg))) \<subseteq> dom (db_map e (cp_db (cs_state s))))))"
proof (intro conjI allI impI)
  show "w_files (snd (main e env cmd w)) path = Some (WithSchema db)" if "w_files w path = Some (WithSchema db)" for cmd path db
    using that main_careful [of e env cmd] unfolding careful_def grows_def by blast
next
  fix args r w'
  assume run: "main e env (ControlPlaneCmd args) w = (Inr r, w')"
  obtain cfg where cfg: "load (me_read_to_string env) (me_toml_control_plane env) (sa_config args) = Inr cfg"
    and r: "r = RunControlPlane (app_state (from_repo_sql e HealthPolicy_default) (cpc_api_token cfg))
       (service_start (stored_db w (cpc_sqlite_path cfg))) (cpc_sweep_interval cfg)"
    using main_control_plane_run [OF run] .
  let ?app = "app_state (from_repo_sql e HealthPolicy_default) (cpc_api_token cfg)" and ?db = "stored_db w (cpc_sqlite_path cfg)"
  have svc: "app_service ?app = from_repo_sql e HealthPolicy_default" by (simp add: app_state_def)
  have db: "db_inv e (cp_db (service_start ?db))"
    using assms(1,2) db_inv_empty by (auto simp: stored_db_def split: option.split DbFile.split)
  have "db_inv e (cp_db (cs_state s)) \<and> dom (db_map e ?db) \<subseteq> dom (db_map e (cp_db (cs_state s)))"
    if "cp_server_reach ae (utc_now e) ?app (service_start ?db) s" for ae s
    using server_retains [OF db svc that] by (simp add: retains_def)
  moreover have "hp_offline_timeout (svc_policy (app_service ?app)) = from_secs 30"
    unfolding svc by (simp add: HealthPolicy_default_def)
  moreover have "app_auth ?app = AuthNone \<longleftrightarrow> cpc_api_token cfg = None \<or> cpc_api_token cfg = Some []"
    by (simp add: app_state_def split: option.split)
  ultimately show "\<exists>cfg app st. load (me_read_to_string env) (me_toml_control_plane env) (sa_config args) = Inr cfg \<and>
       r = RunControlPlane app st (cpc_sweep_interval cfg) \<and>
       cp_db st = stored_db w (cpc_sqlite_path cfg) \<and>
       (app_auth app = AuthNone \<longleftrightarrow> cpc_api_token cfg = None \<or> cpc_api_token cfg = Some []) \<and>
       hp_offline_timeout (svc_policy (app_service app)) = from_secs 30 \<and>
       (\<forall>ae s. cp_server_reach ae (utc_now e) app st s \<longrightarrow> db_inv e (cp_db (cs_state s)) \<and>
          dom (db_map e (stored_db w (cpc_sqlite_path cfg))) \<subseteq> dom (db_map e (cp_db (cs_state s))))"
    using cfg r by (intro exI [of _ cfg] exI [of _ ?app] exI [of _ "service_start ?db"]) simp
qed

definition sample_cp_config :: ControlPlaneConfig where
  "sample_cp_config = \<lparr>cpc_bind_addr = SocketAddr (V4 0 0 0 0) 8080, cpc_sqlite_path = ''cp.db'', cpc_offline_timeout = from_secs 5,
     cpc_sweep_interval = default_sweep_interval, cpc_api_token = Some ''t'', cpc_logging = LoggingConfig_default\<rparr>"

definition sample_main_env :: MainEnv where
  "sample_main_env = \<lparr>me_read_to_string = (\<lambda>_. Inr []), me_toml_gateway = (\<lambda>_. Inr sample_gateway_config),
     me_toml_node = (\<lambda>_. Inl ''no node''), me_toml_control_plane = (\<lambda>_. Inr sample_cp_config),
     me_open_error = (\<lambda>_. None), me_migrate_error = (\<lambda>_. None), me_bind_error = (\<lambda>_. None)\<rparr>"

definition sample_world :: World where
  "sample_world = \<lparr>w_files = [''cp.db'' \<mapsto> WithSchema sample_db], w_logging = []\<rparr>"

theorem main_starts_control_plane_witness:
  "cpc_offline_timeout sample_cp_config = from_secs 5 \<and>
   (\<exists>app st w'. main sample_env sample_main_env (ControlPlaneCmd \<lparr>sa_config = ''cp.toml'', sa_log_level = None\<rparr>) sample_world =
       (Inr (RunControlPlane app st (from_secs 5)), w') \<and> cp_db st = sample_db \<and> app_auth app \<noteq> AuthNone \<and>
       hp_offline_timeout (svc_policy (app_service app)) = from_secs 30)"
proof -
  let ?args = "\<lparr>sa_config = ''cp.toml'', sa_log_level = None\<rparr>"
  have load: "load (me_read_to_string sample_main_env) (me_toml_control_plane sample_main_env) (sa_config ?args) = Inr sample_cp_config"
    by (simp add: load_Inr sample_main_env_def)
  obtain r w' where run: "main sample_env sample_main_env (ControlPlaneCmd ?args) sample_world = (Inr r, w')"
    using load by (simp add: io_bind_def load_config_def logging_init_def open_sqlite_def migrate_def fails_with_def sample_main_env_def Let_def)
  have db: "\<forall>path db. w_files sample_world path = Some (WithSchema db) \<longrightarrow> db_inv sample_env db"
    using sample_db_ok(1) by (simp add: sample_world_def)
  have cfg: "stored_db sample_world (cpc_sqlite_path sample_cp_config) = sample_db" "cpc_sweep_interval sample_cp_config = from_secs 5"
      "cpc_offline_timeout sample_cp_config = from_secs 5" "cpc_api_token sample_cp_config = Some ''t''"
    by (simp_all add: stored_db_def sample_world_def sample_cp_config_def default_sweep_interval_def)
  from main_starts_control_plane [OF env_ok_sample db, THEN conjunct2, rule_format, OF run] obtain app st where
    "r = RunControlPlane app st (from_secs 5)" "cp_db st = sample_db" "app_auth app \<noteq> AuthNone"
    "hp_offline_timeout (svc_policy (app_service app)) = from_secs 30"
    unfolding load by (auto simp: cfg)
  then show ?thesis using run cfg(3) by blast
qed

end
