(* ===== verification/Loadgen.thy ===== *)
theory Loadgen
  imports Gateway_Session Common_Config Rust_Float
begin

text \<open>
  The load generator of the \<^verbatim>\<open>rustproxy\<close> crate, \<^verbatim>\<open>examples/loadgen.rs\<close>: a SOCKS5 client of the gateway. Its calls have no
  deadline, so its environment is a record of its own; its trace has the events of \<open>Net_World\<close>. A failed \<^verbatim>\<open>assert_eq!\<close>
  ends the task that ran it. Its reading of the command line is left out (it needs the standard library's parser of socket addresses).
\<close>

section \<open>Sessions\<close>

datatype LgError = LgIo IoError | LgPanic

record LgEnv =
  lg_connect :: "trace \<Rightarrow> SocketAddr \<Rightarrow> IoError + conn"
  lg_read :: "trace \<Rightarrow> conn \<Rightarrow> nat \<Rightarrow> IoError + bytes"
  lg_write :: "trace \<Rightarrow> conn \<Rightarrow> bytes \<Rightarrow> IoError + unit"
  lg_now :: "trace \<Rightarrow> Duration"

definition lg_connect_to :: "LgEnv \<Rightarrow> SocketAddr \<Rightarrow> (LgError, conn) session" where
  "lg_connect_to env a tr = (let r = lg_connect env tr a in (map_err LgIo r, tr @ [ConnectTo (SocketAddr_display a) (map_err Done r)]))"

definition lg_read_exact :: "LgEnv \<Rightarrow> conn \<Rightarrow> nat \<Rightarrow> (LgError, bytes) session" where
  "lg_read_exact env s n tr = (let r = lg_read env tr s n in (map_err LgIo r, tr @ [ReadExact s n (map_err Done r)]))"

definition lg_write_all :: "LgEnv \<Rightarrow> conn \<Rightarrow> bytes \<Rightarrow> (LgError, unit) session" where
  "lg_write_all env s bs tr = (let r = lg_write env tr s bs in (map_err LgIo r, tr @ [WriteAll s bs (map_err Done r)]))"

definition assert_eq :: "'a \<Rightarrow> 'a \<Rightarrow> (LgError, unit) session" where
  "assert_eq x y = (if x = y then io_return () else io_fail LgPanic)"

definition connect_request :: "SocketAddr \<Rightarrow> Request" where
  "connect_request target = (case target of SocketAddr ip port \<Rightarrow>
     \<lparr>rq_command = Connect, rq_addr = \<lparr>sa_host = Ip ip, sa_port = port\<rparr>\<rparr>)"

definition connect_through_proxy :: "LgEnv \<Rightarrow> SocketAddr \<Rightarrow> SocketAddr \<Rightarrow> (LgError, conn) session" where
  "connect_through_proxy env gateway target =
     io_bind (lg_connect_to env gateway) (\<lambda>s.
     io_bind (lg_write_all env s [VERSION, 1, method_NO_AUTH]) (\<lambda>_.
     io_bind (lg_read_exact env s 2) (\<lambda>sel.
     io_bind (assert_eq (sel ! 0) VERSION) (\<lambda>_.
     io_bind (assert_eq (sel ! 1) method_NO_AUTH) (\<lambda>_.
     io_bind (lg_write_all env s (Request_to_bytes (connect_request target))) (\<lambda>_.
     io_bind (lg_read_exact env s 10) (\<lambda>reply.
       if reply ! 1 \<noteq> reply_SUCCESS
       then io_fail (LgIo (OtherIoError (''proxy CONNECT failed (reply '' @ hex04 (reply ! 1) @ '')'')))
       else io_return s)))))))"

text \<open>The loop may not end: its clock is the environment's.\<close>

partial_function (option) pump_loop ::
  "LgEnv \<Rightarrow> conn \<Rightarrow> bytes \<Rightarrow> Duration \<Rightarrow> Duration \<Rightarrow> u64 \<Rightarrow> trace \<Rightarrow> ((LgError + u64) \<times> trace) option" where
  "pump_loop env s payload start duration acc tr =
     (if lg_now env tr - start < duration then
        (case lg_write_all env s payload tr of
           (Inl e, tr') \<Rightarrow> Some (Inl e, tr')
         | (Inr _, tr') \<Rightarrow> pump_loop env s payload start duration (acc + of_nat (length payload)) tr')
      else Some (Inr acc, tr))"

definition pump :: "LgEnv \<Rightarrow> conn \<Rightarrow> bytes \<Rightarrow> Duration \<Rightarrow> trace \<Rightarrow> ((LgError + u64) \<times> trace) option" where
  "pump env s payload duration tr = pump_loop env s payload (lg_now env tr) duration 0 tr"

section \<open>The report\<close>

datatype SessionEnd = SessionOk u64 | SessionFailed | SessionPanicked

definition lg_session :: "LgEnv \<Rightarrow> SocketAddr \<Rightarrow> SocketAddr \<Rightarrow> bytes \<Rightarrow> Duration \<Rightarrow> SessionEnd option" where
  "lg_session env gateway target payload duration =
     (case connect_through_proxy env gateway target [] of
        (Inl LgPanic, _) \<Rightarrow> Some SessionPanicked
      | (Inl (LgIo _), _) \<Rightarrow> Some SessionFailed
      | (Inr s, tr) \<Rightarrow>
          (case pump env s payload duration tr of
             None \<Rightarrow> None
           | Some (Inr b, _) \<Rightarrow> Some (SessionOk b)
           | Some (Inl _, _) \<Rightarrow> Some SessionFailed))"

record LgCounts =
  lg_ok :: u64
  lg_fail :: u64
  lg_bytes :: u64

fun count_session :: "SessionEnd \<Rightarrow> LgCounts \<Rightarrow> LgCounts" where
  "count_session (SessionOk b) k = k\<lparr>lg_bytes := lg_bytes k + b, lg_ok := lg_ok k + 1\<rparr>"
| "count_session SessionFailed k = k\<lparr>lg_fail := lg_fail k + 1\<rparr>"
| "count_session SessionPanicked k = k"

definition lg_counts :: "SessionEnd list \<Rightarrow> LgCounts" where
  "lg_counts rs = fold count_session rs \<lparr>lg_ok = 0, lg_fail = 0, lg_bytes = 0\<rparr>"

definition lg_success :: "LgCounts \<Rightarrow> rat" where
  "lg_success k =
     (if lg_ok k + lg_fail k > 0
      then f64_div (f64_mul 100 (f64_of_u64 (lg_ok k))) (f64_of_u64 (lg_ok k + lg_fail k)) else 0)"

section \<open>Facts\<close>

text \<open>The gateway sends \<open>inbox\<close> to the session's connection \<open>s\<close> and takes what is written to it.\<close>

definition lg_serves :: "LgEnv \<Rightarrow> SocketAddr \<Rightarrow> conn \<Rightarrow> bytes \<Rightarrow> bool" where
  "lg_serves env gateway s inbox \<longleftrightarrow> (\<forall>tr. lg_connect env tr gateway = Inr s) \<and> (\<forall>tr bs. lg_write env tr s bs = Inr ()) \<and>
     (\<forall>tr n. n \<le> length (pending s inbox tr) \<longrightarrow> lg_read env tr s n = Inr (take n (pending s inbox tr)))"

lemma connect_through_proxy_served:
  assumes "lg_serves env gateway s (sel @ reply @ rest)" "length sel = 2" "length reply = 10"
  shows "connect_through_proxy env gateway target [] =
    (let tr = [ConnectTo (SocketAddr_display gateway) (Inr s), WriteAll s [VERSION, 1, method_NO_AUTH] (Inr ()), ReadExact s 2 (Inr sel)] in
     if sel \<noteq> [VERSION, method_NO_AUTH] then (Inl LgPanic, tr)
     else (if reply ! 1 \<noteq> reply_SUCCESS
           then Inl (LgIo (OtherIoError (''proxy CONNECT failed (reply '' @ hex04 (reply ! 1) @ '')''))) else Inr s,
           tr @ [WriteAll s (Request_to_bytes (connect_request target)) (Inr ()), ReadExact s 10 (Inr reply)]))"
proof -
  obtain a b where sel: "sel = [a, b]" using list2 [OF assms(2)] by blast
  show ?thesis
    using assms unfolding sel
    by (auto simp: connect_through_proxy_def io_bind_def lg_connect_to_def lg_write_all_def lg_read_exact_def lg_serves_def
        pending_def assert_eq_def Let_def)
qed

text \<open>
  With a clock that moves at every write and writes that succeed, the pump ends: it has written the payload
  some \<open>m\<close> times, was still within the duration before each of them and past it after the last, and reports
  the number of bytes written.
\<close>

lemma pump_loop_returns:
  fixes env s payload
  defines "w \<equiv> WriteAll s payload (Inr ())"
  assumes "\<And>tr. lg_now env tr < lg_now env (tr @ [w])" "\<And>tr. lg_write env tr s payload = Inr ()" "start \<le> lg_now env tr"
  shows "\<exists>m. pump_loop env s payload start duration acc tr = Some (Inr (acc + of_nat (m * length payload)), tr @ replicate m w) \<and>
    (\<forall>j < m. lg_now env (tr @ replicate j w) - start < duration) \<and> duration \<le> lg_now env (tr @ replicate m w) - start"
  using assms(4)
proof (induction "start + duration - lg_now env tr" arbitrary: tr acc rule: less_induct)
  case less
  show ?case
  proof (cases "lg_now env tr - start < duration")
    case False
    then show ?thesis by (subst pump_loop.simps) (auto intro: exI [of _ 0])
  next
    case True
    have now: "lg_now env tr < lg_now env (tr @ [w])" by (rule assms(2))
    have a: "start + duration - lg_now env (tr @ [w]) < start + duration - lg_now env tr" "start \<le> lg_now env (tr @ [w])"
      using True now less.prems by simp_all
    obtain m where m: "pump_loop env s payload start duration (acc + of_nat (length payload)) (tr @ [w]) =
          Some (Inr (acc + of_nat (length payload) + of_nat (m * length payload)), (tr @ [w]) @ replicate m w)"
        "\<forall>j < m. lg_now env ((tr @ [w]) @ replicate j w) - start < duration"
        "duration \<le> lg_now env ((tr @ [w]) @ replicate m w) - start"
      using less.hyps [OF a] by blast
    have "pump_loop env s payload start duration acc tr = Some (Inr (acc + of_nat (Suc m * length payload)), tr @ replicate (Suc m) w)"
      using m(1) True assms(3) by (subst pump_loop.simps) (simp add: lg_write_all_def w_def algebra_simps)
    moreover have "lg_now env (tr @ replicate j w) - start < duration" if "j < Suc m" for j
      using that m(2) True by (cases j) simp_all
    moreover have "duration \<le> lg_now env (tr @ replicate (Suc m) w) - start" using m(3) by simp
    ultimately show ?thesis by blast
  qed
qed

lemma sent_replicate: "sent s (replicate m (WriteAll s bs (Inr ()))) = concat (replicate m bs)"
  by (induction m) simp_all

lemma count_sessions:
  "fold count_session rs k = \<lparr>lg_ok = lg_ok k + of_nat (length (filter (\<lambda>r. \<exists>b. r = SessionOk b) rs)),
     lg_fail = lg_fail k + of_nat (length (filter ((=) SessionFailed) rs)), lg_bytes = lg_bytes (fold count_session rs k)\<rparr>"
  for k :: LgCounts
proof (induction rs arbitrary: k)
  case (Cons r rs)
  show ?case by (cases r) (subst fold_Cons, subst comp_apply, subst Cons.IH, simp)+
qed simp

lemma panics_uncounted:
  assumes "lg_serves env gateway s (sel @ rest)" "length sel = 2" "sel \<noteq> [VERSION, method_NO_AUTH]"
  shows "lg_session env gateway target payload duration = Some SessionPanicked"
proof -
  obtain a b where sel: "sel = [a, b]" using list2 [OF assms(2)] by blast
  have io: "lg_connect_to env gateway tr = (Inr s, tr @ [ConnectTo (SocketAddr_display gateway) (Inr s)])"
      "lg_write_all env s bs tr = (Inr (), tr @ [WriteAll s bs (Inr ())])"
      "received s tr = [] \<Longrightarrow> lg_read_exact env s 2 tr = (Inr [a, b], tr @ [ReadExact s 2 (Inr [a, b])])" for tr bs
    using assms(1) unfolding sel by (simp_all add: lg_connect_to_def lg_write_all_def lg_read_exact_def lg_serves_def pending_def)
  obtain tr where "connect_through_proxy env gateway target [] = (Inl LgPanic, tr)"
  proof (cases "a = VERSION")
    case True
    then have "b \<noteq> method_NO_AUTH" using assms(3) sel by simp
    then show thesis using True that io by (simp add: connect_through_proxy_def io_bind_def assert_eq_def)
  next
    case False
    then show thesis using that io by (simp add: connect_through_proxy_def io_bind_def assert_eq_def)
  qed
  then show ?thesis by (simp add: lg_session_def)
qed

text \<open>
  The success ratio leaves out the sessions that panicked: behind a gateway that asks for credentials from some clients
  only, the generator can report full success while most sessions never got through.
\<close>

lemma ratio_ignores_panics: "lg_success (lg_counts (filter (\<lambda>r. r \<noteq> SessionPanicked) rs)) = lg_success (lg_counts rs)"
proof -
  have "fold count_session (filter (\<lambda>r. r \<noteq> SessionPanicked) rs) k = fold count_session rs k" for k :: LgCounts
    by (induction rs arbitrary: k) auto
  then show ?thesis by (simp add: lg_counts_def)
qed

section \<open>Properties\<close>

text \<open>
  C14. The load generator gets through the gateway. Let a gateway without credentials be fed what the generator sends, with
  a control plane and a node that work, and the generator what the gateway answers; let time pass at every write. Then the
  session connects, and each side has read exactly what the other sent. After that the session writes the payload to the gateway
  some \<open>m\<close> times and does nothing else, stopping with the first write that ends after the configured duration, and it counts
  as a success with exactly the number of bytes of these writes.
\<close>

theorem loadgen_through_gateway:
  fixes target
  defines "hello \<equiv> [VERSION, 1, method_NO_AUTH] @ Request_to_bytes (connect_request target)"
  assumes "gc_auth ctx = None" "request_ok (connect_request target)" "accepts env c" "delivers env c (hello @ rest)"
    and "control_plane_answers env n" "working_node env s (sr_address n) p data" "rp_code p = reply_SUCCESS" "s \<noteq> c"
    and "\<forall>tr d. env_copy env tr d c s = Inr (up, down)"
    and "gw_run_with_ctx env c ctx [] = (r, gtr)"
    and "lg_serves lenv gateway k (sent c gtr @ beyond)"
    and "\<forall>tr bs. lg_now lenv tr < lg_now lenv (tr @ [WriteAll k bs (Inr ())])"
  shows "r = Inr () \<and>
    (\<exists>ctr m. let writes = (\<lambda>j. replicate j (WriteAll k payload (Inr ()))); bytes = of_nat (length (sent k (writes m))) in
       connect_through_proxy lenv gateway target [] = (Inr k, ctr) \<and>
       sent k ctr = received c gtr \<and> received k ctr = sent c gtr \<and>
       pump lenv k payload duration ctr = Some (Inr bytes, ctr @ writes m) \<and>
       sent k (writes m) = concat (replicate m payload) \<and>
       (\<forall>j < m. lg_now lenv (ctr @ writes j) - lg_now lenv ctr < duration) \<and>
       duration \<le> lg_now lenv (ctr @ writes m) - lg_now lenv ctr \<and>
       lg_session lenv gateway target payload duration = Some (SessionOk bytes))"
proof -
  let ?g = "\<lparr>gr_methods = [method_NO_AUTH]\<rparr>" and ?q = "connect_request target"
  have "rq_command ?q = Connect" by (simp add: connect_request_def split: SocketAddr.split)
  then have "honest_client env c (gc_auth ctx) ?g ?q rest"
    using assms(1-5) by (simp add: honest_client_def admits_def greeting_ok_def greeting_bytes_def auth_frames_def len_as_u8_def)
  note run = gw_run_complete [OF this assms(6-9), of up down]
  obtain tr where g: "gw_run_with_ctx env c ctx [] = (Inr (), tr)" "received c tr = greeting_bytes ?g @ auth_frames (gc_auth ctx) @ Request_to_bytes ?q"
      "sent c tr = auth_answers (gc_auth ctx) @ reply_bytes reply_SUCCESS"
    using run assms(10) by blast
  have gtr: "r = Inr ()" "received c gtr = hello" "sent c gtr = [VERSION, method_NO_AUTH] @ reply_bytes reply_SUCCESS"
    using g assms(1,2,11) by (simp_all add: greeting_bytes_def auth_frames_def auth_answers_def len_as_u8_def)
  have reply: "length (reply_bytes reply_SUCCESS) = 10" "reply_bytes reply_SUCCESS ! 1 = reply_SUCCESS"
    by (simp_all add: reply_bytes_def simple_reply_def Reply_to_bytes_eq reply_ok_def)
  have served: "lg_serves lenv gateway k ([VERSION, method_NO_AUTH] @ reply_bytes reply_SUCCESS @ beyond)"
    using assms(12) gtr(3) by simp
  define ctr where "ctr = snd (connect_through_proxy lenv gateway target [])"
  have conn: "connect_through_proxy lenv gateway target [] = (Inr k, ctr)" "sent k ctr = hello"
      "received k ctr = [VERSION, method_NO_AUTH] @ reply_bytes reply_SUCCESS"
    using connect_through_proxy_served [OF served _ reply(1)] reply(2) assms(1) by (simp_all add: ctr_def Let_def)
  have w: "lg_write lenv tr k payload = Inr ()" for tr using served by (simp add: lg_serves_def)
  let ?ws = "\<lambda>j. replicate j (WriteAll k payload (Inr ()))"
  obtain m where m: "pump_loop lenv k payload (lg_now lenv ctr) duration 0 ctr = Some (Inr (0 + of_nat (m * length payload)), ctr @ ?ws m)"
      "\<forall>j < m. lg_now lenv (ctr @ ?ws j) - lg_now lenv ctr < duration" "duration \<le> lg_now lenv (ctr @ ?ws m) - lg_now lenv ctr"
    using pump_loop_returns [OF assms(13) [rule_format] w order_refl] by blast
  have n: "length (sent k (?ws m)) = m * length payload" by (simp add: sent_replicate length_concat sum_list_replicate)
  have p: "pump lenv k payload duration ctr = Some (Inr (of_nat (length (sent k (?ws m)))), ctr @ ?ws m)"
    using m(1) unfolding n pump_def by simp
  then have "lg_session lenv gateway target payload duration = Some (SessionOk (of_nat (length (sent k (?ws m)))))"
    using conn(1) by (simp add: lg_session_def)
  then show ?thesis using gtr conn p m(2,3) sent_replicate [of k m payload]
    unfolding Let_def by (intro conjI exI [of _ ctr] exI [of _ m]) simp_all
qed

definition sample_target :: SocketAddr where
  "sample_target = SocketAddr (V4 127 0 0 1) 9001"

definition lg_inbox :: "conn \<Rightarrow> bytes" where
  "lg_inbox c = (if c = 0 then [5, 1, 0] @ Request_to_bytes (connect_request sample_target) else [5, 0] @ Reply_to_bytes (simple_reply 0))"

text \<open>The generator's world behind that gateway: it answers from \<open>inbox\<close>, and a trace's length is the time.\<close>

definition lg_script :: "bytes \<Rightarrow> LgEnv" where
  "lg_script inbox = \<lparr>lg_connect = (\<lambda>tr a. Inr 0),
     lg_read = (\<lambda>tr c n. let p = pending c inbox tr in if n \<le> length p then Inr (take n p) else Inl UnexpectedEof),
     lg_write = (\<lambda>tr c bs. Inr ()), lg_now = length\<rparr>"

theorem loadgen_through_gateway_witness:
  "\<exists>m. lg_session (lg_script (sent 0 (snd (gw_run_with_ctx (script_env lg_inbox) 0 (sample_ctx\<lparr>gc_auth := None\<rparr>) []))))
     (SocketAddr (V4 127 0 0 1) 1080) sample_target [0xAB, 0xAB] 3 = Some (SessionOk (of_nat (length (concat (replicate m [0xAB, 0xAB :: u8])))))"
proof -
  let ?ctx = "sample_ctx\<lparr>gc_auth := None\<rparr>" and ?env = "script_env lg_inbox"
  let ?run = "gw_run_with_ctx ?env 0 ?ctx []"
  have node: "working_node ?env 1 a (simple_reply 0) []" for a
    using script_env_ok(3) [of lg_inbox 1]
    by (simp add: working_node_def script_env_ok reply_ok_def simple_reply_def covers_overread_def lg_inbox_def)
  have client: "delivers ?env 0 (([VERSION, 1, method_NO_AUTH] @ Request_to_bytes (connect_request sample_target)) @ [])"
    using script_env_ok(3) [of lg_inbox 0] by (simp add: lg_inbox_def)
  have q: "request_ok (connect_request sample_target)" by (simp add: connect_request_def sample_target_def request_ok_def)
  have serves: "lg_serves (lg_script (sent 0 (snd ?run))) gw 0 (sent 0 (snd ?run) @ [])" for gw
    by (simp add: lg_serves_def lg_script_def Let_def)
  have "lg_now (lg_script i) tr < lg_now (lg_script i) (tr @ [e])" for i tr e by (simp add: lg_script_def)
  then have now: "\<forall>tr bs. lg_now (lg_script i) tr < lg_now (lg_script i) (tr @ [WriteAll 0 bs (Inr ())])" for i by blast
  note run = loadgen_through_gateway [OF _ q script_env_ok(2) client script_env_ok(4) node _ _ _ surjective_pairing serves now,
      where up = 10 and down = 20 and payload = "[0xAB, 0xAB]" and duration = 3 and gateway = "SocketAddr (V4 127 0 0 1) 1080"]
  show ?thesis
    using run [THEN conjunct2] unfolding Let_def sent_replicate by (auto simp: simple_reply_def script_env_ok simp del: length_concat)
qed

end
