(* ===== verification/Spec2Isabelle.thy ===== *)
theory Spec2Isabelle
  imports Rustproxy_Main Loadgen
begin

text \<open>
  A verification of rustproxy, a distributed SOCKS5 proxy in Rust.

  \<^bold>\<open>The program.\<close> A client speaks SOCKS5 to the \<^emph>\<open>gateway\<close>. The gateway lets it in, asks the \<^emph>\<open>control plane\<close> over HTTP for a
  node, connects to that \<^emph>\<open>node agent\<close> with a SOCKS5 CONNECT of its own, and splices the two streams; the node connects to the
  target. Nodes register with the control plane and send it heartbeats; it keeps them in SQLite, classifies their health, sweeps silent
  ones offline and selects the best. One binary starts each of the three. Paths below are under \<^verbatim>\<open>src/crates\<close>.

  \<^bold>\<open>Conventions.\<close> Rust integers are words of their width, \<^verbatim>\<open>Result\<close> is a sum type, \<^verbatim>\<open>?\<close> is \<open>and_then\<close>, and
  asynchronous functions are state transformers \<open>('s, 'e, 'a) io\<close> (\<open>Proxy_Prelude\<close>). A \<^verbatim>\<open>Duration\<close> is a number of nanoseconds.
  \<^verbatim>\<open>f64\<close> values are rationals, and each operation rounds to the nearest double, ties to even (\<open>Rust_Float\<close>). Panics are error values.

  \<^bold>\<open>The protocol crate\<close> (\<^verbatim>\<open>protocol/src\<close>).
  \<^item> \<open>Socks_Wire\<close>: constants, errors, the bounds-checked \<open>Reader\<close>; the contracts \<open>frame_codec\<close> and \<open>sound_codec\<close>.
  \<^item> \<open>Socks_Auth\<close>, \<open>Socks_Handshake\<close>, \<open>Socks_Address\<close>, \<open>Socks_Request\<close>, \<open>Socks_Reply\<close>: one file each of the crate. Every parser
    with a serializer is an interpretation of \<open>sound_codec\<close>: it accepts exactly what the serializer writes, reports how much it
    consumed, and asks for more on every proper prefix.

  \<^bold>\<open>The control plane\<close> (\<^verbatim>\<open>control-plane/src\<close>).
  \<^item> \<open>CP_Model\<close> (\<^verbatim>\<open>model.rs\<close>, \<^verbatim>\<open>health.rs\<close>), \<open>CP_Routing\<close> (\<^verbatim>\<open>routing.rs\<close>), \<open>CP_Bandwidth\<close> (\<^verbatim>\<open>bandwidth.rs\<close>): states,
    staleness, score and selection; the lock-free allocator, as a loop and as threads that interleave their atomic steps.
  \<^item> \<open>CP_Registry\<close> (\<^verbatim>\<open>registry.rs\<close>): the table as a list of rows with SQL arithmetic. The locale \<open>node_repository\<close> is the contract a
    client relies on, a registry as a finite map with its update laws; SQLite is proved to implement it.
  \<^item> \<open>CP_Service\<close>, \<open>CP_Progress\<close>, \<open>CP_Reservation\<close>, \<open>CP_Lifecycle\<close> (\<^verbatim>\<open>service.rs\<close>): the operations over any repository, their
    success while no statement fails, the bandwidth ledger, and whole histories of operations.
  \<^item> \<open>CP_Api\<close> (\<^verbatim>\<open>api.rs\<close>): handlers, validation, authorization, routes.
  \<^item> \<open>CP_Concurrent\<close>: the same operations as tasks that stop at each SQL statement, and their interleavings; a task run alone is the
    operation of \<open>CP_Service\<close>. \<open>CP_Server\<close> (\<^verbatim>\<open>server.rs\<close>): requests in flight, sweep and shutdown as a step relation.

  \<^bold>\<open>Gateway and node agent\<close> (\<^verbatim>\<open>gateway/src\<close>, \<^verbatim>\<open>node/src\<close>).
  \<^item> \<open>Net_World\<close>: a session's state is the trace of its socket and HTTP calls; an environment, a function of that trace, decides
    each outcome. The contract \<open>frame_reader\<close> says what a function that reads one frame off a socket must do.
  \<^item> \<open>Gateway_Handler\<close>, \<open>Gateway_Session\<close> (\<^verbatim>\<open>handler.rs\<close>, \<^verbatim>\<open>proxy_client.rs\<close>, \<^verbatim>\<open>relay.rs\<close>, \<^verbatim>\<open>metrics.rs\<close>): the client session and what it
    does with the world. \<open>Node_Handler\<close>: the same for the node's.
  \<^item> \<open>Gateway_Server\<close> (\<^verbatim>\<open>gateway.rs\<close>, \<^verbatim>\<open>metrics_server.rs\<close>), \<open>Node_Server\<close> (\<^verbatim>\<open>server.rs\<close>, \<^verbatim>\<open>cp_client.rs\<close>): accept loops,
    semaphores, tasks, heartbeats and shutdown as step relations; the waiting loops are instances of \<open>polling_loop\<close> (\<open>Polling\<close>).

  \<^bold>\<open>Common code and binary.\<close> \<open>Common_Config\<close> (\<^verbatim>\<open>common/src\<close>): configuration, errors, log levels, command line. \<open>Rustproxy_Main\<close>
  (\<^verbatim>\<open>rustproxy-bin/src/main.rs\<close>): what each subcommand starts. \<open>Loadgen\<close> (\<^verbatim>\<open>rustproxy-bin/examples/loadgen.rs\<close>): the test client.

  \<^bold>\<open>What is shown.\<close> Frames: parsers and serializers are inverse. Selection and scores: optimal, monotone, exact where
  rounding could hurt. Registry: every statement refines a map update; ids stay unique and rows decodable over every history, every
  interleaving and every failure. Bandwidth: never over-committed; a rate limiter's tokens stay
  between zero and its capacity over every history. Each operation moves a node only along its own lifecycle edges, and a drained node is never
  selected again. API: no change without the token, only valid nodes. Sessions: nothing is done
  for a client that was not let in, honest clients are served, error replies, nothing but the target is connected to. Servers: connection
  ceilings, counts, orderly shutdown. Across components (this theory, \<open>Rustproxy_Main\<close>, \<open>Loadgen\<close>): gateway and node agree byte for byte; traffic
  goes only to nodes the control plane held healthy. Several properties state what the code does where a comment promises something else: a
  heartbeat can undo a concurrent drain, a node's domain reply is over-read, a configured timeout is ignored.

  \<^bold>\<open>Bounds and loops.\<close> There is no fuel. Loops over data are structural recursions. Loops that wait are
  \<^verbatim>\<open>partial_function (option)\<close>: the two shutdown loops return within 200 passes of 50 ms under their 10 s deadline, given a clock that moves at
  least the pause; the load generator's pump returns if time passes at each write. The allocator's compare-and-swap loop returns once an attempt
  is not spurious; the rate limiter's \<^verbatim>\<open>acquire\<close> once a pause was long enough to fill the bucket. Tasks are a datatype, so each ends after finitely many statements.

  \<^bold>\<open>Assumptions.\<close> Each is a named hypothesis with an instance in a witness: \<open>env_ok\<close> (the clock is in the range of SQLite's
  integers), \<open>reads_exact\<close> (\<^verbatim>\<open>read_exact\<close> fills its buffer), \<open>delivers\<close> and \<open>accepts\<close> (an honest peer), \<open>control_plane_answers\<close>,
  \<open>working_node\<close>, \<open>answered_by\<close> (the HTTP answer is the control plane's), \<open>lg_serves\<close>. A single SQL statement is atomic.

  \<^bold>\<open>Not modelled.\<close> Code of other crates: sockets and timers of tokio, HTTP framing of axum and reqwest, JSON and TOML decoding, SQLite's own
  storage, clap, tracing, the Prometheus recorder (\<^verbatim>\<open>init\<close> and \<^verbatim>\<open>render\<close> of the three \<^verbatim>\<open>metrics.rs\<close>; that of the control plane also has
  connection counters no code calls). Log output. \<^verbatim>\<open>Debug\<close> implementations and derived traits. The command line of the load generator, which needs the
  standard library's parser of socket addresses. NaN and infinities of \<^verbatim>\<open>f64\<close>: no expression of the program yields them on finite weights.
  In the server step relations a connection task takes its permit and looks at the shutdown token in one step, a heartbeat is one step, and an aborted
  task ends at once; a node whose listener cannot be bound has no running server. Unit tests, scripts and deployment files.
\<close>

section \<open>The chain from gateway to node\<close>

lemma simple_reply_ok: "reply_ok (simple_reply code)" "covers_overread (simple_reply code) data" "overread (simple_reply code) data = []"
  by (simp_all add: reply_ok_def simple_reply_def covers_overread_def overread_def)

text \<open>
  C5. Gateway and node, end to end. Let the node be fed what the gateway sends (its greeting and the client's request) and
  the gateway what the node answers. Then the gateway's chained connection succeeds exactly when the node reached
  the target, and otherwise fails with the reply code of what happened there; and neither side
  reads a byte the other did not send for it, so the relay starts on both sides at the first byte of the payload.
\<close>

theorem chain_end_to_end:
  assumes "request_ok q" "rq_command q = Connect"
    and "nc_auth nctx = None" "accepts nenv g" "delivers nenv g ([VERSION, 1, method_NO_AUTH] @ Request_to_bytes q @ rest)"
    and "\<forall>tr. env_connect nenv tr (nc_handshake_timeout nctx) (SocksAddr_display (rq_addr q)) = k"
    and "node_run_with_ctx nenv g nctx [] = (nr, ntr)"
    and "\<forall>tr d. env_connect genv tr d addr = Inr s" "accepts genv s" "delivers genv s (sent g ntr @ data)" "received s tr = []"
  shows "\<exists>evs. connect_and_chain genv addr (rq_addr q) d tr =
      (if isl k then Inl (GwRelay (''node CONNECT failed (reply '' @ hex04 (target_reply k) @ '')'')) else Inr s, tr @ evs) \<and>
    sent s evs = received g ntr \<and> received s evs = sent g ntr \<and> (nr = Inr () \<longleftrightarrow> \<not> isl k)"
proof -
  from node_session [OF assms(1-4), of rest k] assms(5-7) have
    n: "nr = Inr () \<longleftrightarrow> \<not> isl k" "received g ntr = [5, 1, 0] @ Request_to_bytes q" "sent g ntr = [5, 0] @ reply_bytes (target_reply k)"
    by auto
  let ?p = "simple_reply (target_reply k)"
  have inbox: "delivers genv s ([5, 0] @ Reply_to_bytes ?p @ data)" using assms(10) n(3) by (simp add: reply_bytes_def)
  have "pending s ([5, 0] @ Reply_to_bytes ?p @ data) tr = [5, 0] @ Reply_to_bytes ?p @ data"
    using assms(11) by (simp add: pending_def)
  from connect_and_chain_complete [OF spec [OF spec [OF assms(8)]] assms(9) inbox simple_reply_ok(1,2) this, where dest = "rq_addr q" and d = d]
  obtain evs where c: "connect_and_chain genv addr (rq_addr q) d tr = (if rp_code ?p = reply_SUCCESS then Inr s
       else Inl (GwRelay (''node CONNECT failed (reply '' @ hex04 (rp_code ?p) @ '')'')), tr @ evs)"
    "received s evs = [5, 0] @ Reply_to_bytes ?p @ overread ?p data"
    "sent s evs = [5, 1, 0] @ Request_to_bytes \<lparr>rq_command = Connect, rq_addr = rq_addr q\<rparr>" by metis
  have "rp_code ?p = target_reply k" "target_reply k = reply_SUCCESS \<longleftrightarrow> \<not> isl k"
    by (auto simp: simple_reply_def target_reply_def split: sum.split timed.split IoError.split)
  moreover have "\<lparr>rq_command = Connect, rq_addr = rq_addr q\<rparr> = q" using assms(2) by (cases q) simp
  ultimately show ?thesis using c n by (auto simp: simple_reply_ok reply_bytes_def)
qed

theorem chain_end_to_end_witness:
  "fst (connect_and_chain
     (script_env (\<lambda>_. sent 0 (snd (node_run_with_ctx (script_env (\<lambda>_. [5, 1, 0] @ Request_to_bytes sample_connect)) 0 node_ctx []))))
     ''n'' (rq_addr sample_connect) 1 []) = Inr 1"
proof -
  let ?n = "\<lambda>_ :: conn. [5, 1, 0] @ Request_to_bytes sample_connect" and ?run = "\<lambda>n. node_run_with_ctx (script_env n) 0 node_ctx []"
  let ?g = "\<lambda>_ :: conn. sent 0 (snd (?run ?n))"
  have q: "request_ok sample_connect" "rq_command sample_connect = Connect" "nc_auth node_ctx = None"
    by (simp_all add: sample_connect_def request_ok_def is_rust_string_ascii node_ctx_def)
  have d: "delivers (script_env ?n) 0 ([VERSION, 1, method_NO_AUTH] @ Request_to_bytes sample_connect @ [])"
      "delivers (script_env ?g) 1 (sent 0 (snd (?run ?n)) @ [])"
    using script_env_ok(3) [of ?n 0] script_env_ok(3) [of ?g 1] by simp_all
  have k: "\<forall>tr. env_connect (script_env ?n) tr (nc_handshake_timeout node_ctx) (SocksAddr_display (rq_addr sample_connect)) = Inr 1"
      "\<forall>tr d. env_connect (script_env ?g) tr d ''n'' = Inr 1"
    by (simp_all add: script_env_ok)
  show ?thesis
    using chain_end_to_end [OF q script_env_ok(2) d(1) k(1) surjective_pairing k(2) script_env_ok(2) d(2), of "[]" 1] by auto
qed

text \<open>
  C40. Both servers' shutdown loops end: with a clock that advances by at least the pause they sleep, the gateway's
  and the node's each return after at most 200 passes, and not before their sessions are gone or ten seconds are over.
\<close>

theorem shutdown_loops_end:
  assumes "\<forall>i. elapsed i + from_millis 50 \<le> elapsed (Suc i)"
  shows "(\<exists>n. n \<le> 200 \<and> gw_drain_loop strong elapsed 0 = Some n \<and> (strong n \<le> 1 \<or> elapsed n \<ge> from_secs 10)) \<and>
    (\<exists>n. n \<le> 200 \<and> node_drain_loop active elapsed 0 = Some n \<and> (active n = 0 \<or> elapsed n \<ge> from_secs 10))"
  using gw_drain_returns [of elapsed strong] node_drain_returns [of elapsed active] assms
  by (auto simp: gw_drain_pause_def node_drain_pause_def gw_drain_deadline_def node_drain_deadline_def)

theorem shutdown_loops_end_witness:
  "\<exists>n. n \<le> 200 \<and> node_drain_loop (\<lambda>i. if i < 3 then 1 else 0) (\<lambda>i. i * from_millis 50) 0 = Some n"
  using shutdown_loops_end [of "\<lambda>i. i * from_millis 50" "\<lambda>i. 1" "\<lambda>i. if i < 3 then 1 else 0"] by auto

section \<open>The control plane behind the gateway\<close>

text \<open>
  The HTTP reply a gateway decodes from a response of the control plane: same status, and a body that decodes as a selected
  node is the JSON of that node. \<open>answered_by\<close>: the gateway's select calls are answered by the control plane in some state of \<open>S\<close>.
\<close>

definition decodes_to :: "HttpResponse \<Rightarrow> HttpReply \<Rightarrow> bool" where
  "decodes_to resp reply \<longleftrightarrow> hr_status reply = rs_status resp \<and>
     (\<forall>x. hr_json reply = Inr x \<longrightarrow> (\<exists>n. rs_body resp = NodeBody n \<and> sr_id x = nr_id n \<and> sr_address x = nr_address n))"

definition answered_by :: "Env \<Rightarrow> ControlPlaneClient \<Rightarrow> ApiEnv \<Rightarrow> AppState \<Rightarrow> Db CpState set \<Rightarrow> bool" where
  "answered_by env client ae app S \<longleftrightarrow> (\<forall>tr d call reply. hc_url call = cl_base_url client @ ''/nodes/select'' \<longrightarrow>
     env_post_within env tr d call = Inr reply \<longrightarrow>
     (\<exists>st \<in> S. \<exists>q. hq_method q = POST \<and> hq_path q = [''nodes'', ''select''] \<and> decodes_to (fst (router ae app q st)) reply))"

lemma select_response:
  assumes "db_inv e (cp_db st)" "app_service app = from_repo_sql e p" "hq_method q = POST" "hq_path q = [''nodes'', ''select'']"
    and "is_success (rs_status (fst (router ae app q st)))"
  obtains n where "db_map e (cp_db st) (nd_id n) = Some n" "is_selectable n"
    "rs_body (fst (router ae app q st)) = NodeBody (NodeResponse_from_node n (nd_bandwidth_limit n))"
proof -
  obtain r s1 where run: "service_select (from_repo_sql e p) st = (r, s1)" by fastforce
  have resp: "fst (router ae app q st) = fst (respond (select_node ae app) st)"
    using assms(3,4) by (simp add: router_def on_method_def)
  obtain n where r: "r = Inr (Some n)"
    using assms(5) run unfolding resp
    by (cases r; cases "projr r") (simp_all add: respond_def select_node_def assms(2) io_bind_def io_map_err_def into_response_def
        is_success_def internal_def)
  from sqlite.service_select_ok [OF assms(1) from_repo_sql_sel(1) run [unfolded r]]
  have "db_map e (cp_db st) (nd_id n) = Some n" "is_selectable n" by simp_all
  moreover have "rs_body (fst (router ae app q st)) = NodeBody (NodeResponse_from_node n (nd_bandwidth_limit n))"
    unfolding resp using run r by (simp add: respond_def select_node_def assms(2) io_bind_def io_map_err_def into_response_def)
  ultimately show thesis by (rule that)
qed

lemma gw_select_reply:
  assumes "gw_pick_node env c ctx tr = (Inr n, tr')"
  obtains call reply x where "hc_url call = cl_base_url (gc_client ctx) @ ''/nodes/select''"
    "env_post_within env tr (gc_connect_timeout ctx) call = Inr reply" "is_success (hr_status reply)" "hr_json reply = Inr x"
    "rn_forward_address n = sr_address x"
proof -
  have "gw_select_node env (gc_connect_timeout ctx) (gc_client ctx) tr = (Inr n, tr')"
    using assms by (auto simp: gw_pick_node_def Let_def io_bind_def split: prod.splits sum.splits timed.splits)
  then obtain reply x where r: "env_post_within env tr (gc_connect_timeout ctx)
      (authed (gc_client ctx) (cl_base_url (gc_client ctx) @ ''/nodes/select'') NoPayload) = Inr reply"
    "is_success (hr_status reply)" "hr_json reply = Inr x" "rn_forward_address n = sr_address x"
    by (auto simp: gw_select_node_def io_bind_eq_Inr post_within_def Let_def split: if_splits)
  show thesis by (rule that [OF _ r]) (simp add: authed_def)
qed

lemma gw_connects_to_selected:
  assumes "\<And>call reply x tr. hc_url call = cl_base_url (gc_client ctx) @ ''/nodes/select'' \<Longrightarrow>
      env_post_within env tr (gc_connect_timeout ctx) call = Inr reply \<Longrightarrow> is_success (hr_status reply) \<Longrightarrow>
      hr_json reply = Inr x \<Longrightarrow> Q (sr_address x)"
  shows "emits (\<lambda>e. \<forall>a k. e = ConnectTo a k \<longrightarrow> Q a) (gw_run_with_ctx env c ctx)"
proof -
  let ?P = "\<lambda>e. \<forall>a k. e = ConnectTo a k \<longrightarrow> Q a"
  have talks: "talks_to c e \<Longrightarrow> ?P e" for e by (auto simp: talks_to_def)
  have serve: "emits ?P (gw_serve env c ctx q)" for q
    unfolding gw_serve_def Let_def
  proof (rule emits_bind_Inr)
    fix n tr tr'
    assume "gw_pick_node env c ctx tr = (Inr n, tr')"
    then have "Q (rn_forward_address n)" using gw_select_reply assms by metis
    then show "emits ?P (io_bind (connect_and_chain env (rn_forward_address n) (rq_addr q) (gc_connect_timeout ctx)) (\<lambda>node_stream.
        io_bind (gw_write_all_timeout env c (reply_bytes reply_SUCCESS) (gc_connect_timeout ctx)) (\<lambda>_.
        io_bind (relay env c node_stream (gc_idle_timeout ctx)) (\<lambda>stats.
        io_bind (emit (gw_record_bytes_up (rs_bytes_up stats))) (\<lambda>_. emit (gw_record_bytes_down (rs_bytes_down stats)))))))"
      unfolding relay_def by (intro emits_bind emits_chain_to emits_gw_calls) (auto simp: emits_calls)
  qed (rule emits_pick, simp_all)
  show ?thesis
    unfolding gw_run_with_ctx_def
    by (intro emits_bind emits_mono [OF gw_authenticate_talks talks] emits_mono [OF gw_accept_talks talks] serve)
qed

text \<open>
  C1. The system's promise: a client's traffic goes only through nodes the control plane considers healthy. Let a
  gateway's select calls be answered by a running control plane. Then, in every session and whatever else the network
  does, the only addresses the gateway connects to are those of nodes that were registered, and Healthy or Degraded, in a
  state the control plane's server was in.
\<close>

theorem gateway_forwards_to_selectable_nodes:
  assumes "db_inv e (cp_db st)" "app_service app = from_repo_sql e p"
    and "answered_by env (gc_client ctx) ae app {cs_state s |s. cp_server_reach ae (utc_now e) app st s}"
    and "gw_run_with_ctx env c ctx [] = (r, tr)" "ConnectTo a k \<in> set tr"
  shows "\<exists>s n. cp_server_reach ae (utc_now e) app st s \<and> db_map e (cp_db (cs_state s)) (nd_id n) = Some n \<and>
    is_selectable n \<and> a = nd_address n"
proof -
  let ?Q = "\<lambda>a. \<exists>s n. cp_server_reach ae (utc_now e) app st s \<and> db_map e (cp_db (cs_state s)) (nd_id n) = Some n \<and>
    is_selectable n \<and> a = nd_address n"
  have "?Q (sr_address x)" if call: "hc_url call = cl_base_url (gc_client ctx) @ ''/nodes/select''"
      "env_post_within env tr (gc_connect_timeout ctx) call = Inr reply" "is_success (hr_status reply)" "hr_json reply = Inr x"
    for call reply x tr
  proof -
    obtain s q where s: "cp_server_reach ae (utc_now e) app st s" and q: "hq_method q = POST" "hq_path q = [''nodes'', ''select'']"
      and d: "decodes_to (fst (router ae app q (cs_state s))) reply"
      using assms(3) call(1,2) unfolding answered_by_def by blast
    have inv: "db_inv e (cp_db (cs_state s))" using server_retains [OF assms(1,2) s] by (simp add: retains_def)
    have "is_success (rs_status (fst (router ae app q (cs_state s))))" using d call(3) by (simp add: decodes_to_def)
    from select_response [OF inv assms(2) q this] obtain n where n: "db_map e (cp_db (cs_state s)) (nd_id n) = Some n" "is_selectable n"
      "rs_body (fst (router ae app q (cs_state s))) = NodeBody (NodeResponse_from_node n (nd_bandwidth_limit n))" .
    have "sr_address x = nd_address n" using d call(4) n(3) by (simp add: decodes_to_def NodeResponse_from_node_def)
    then show ?thesis using s n by blast
  qed
  then have em: "emits (\<lambda>e. \<forall>a k. e = ConnectTo a k \<longrightarrow> ?Q a) (gw_run_with_ctx env c ctx)"
    by (rule gw_connects_to_selected [where Q = ?Q])
  obtain evs where "tr = [] @ evs" "\<forall>e \<in> set evs. \<forall>a k. e = ConnectTo a k \<longrightarrow> ?Q a"
    by (rule emitsD [OF em assms(4)])
  then have "\<forall>a' k'. ConnectTo a k = ConnectTo a' k' \<longrightarrow> ?Q a'" using assms(5) by simp
  then show ?thesis by blast
qed

text \<open>The registry after the sample node's first heartbeat.\<close>

definition beaten_state :: "Db CpState" where
  "beaten_state = snd (run_task (heartbeat_task (from_repo_sql sample_env HealthPolicy_default) (sample_beat 1)) (service_start sample_db))"

lemma beaten_state_ok:
  obtains n where "quiet_inv sample_env (cp_db beaten_state)" "db_map sample_env (cp_db beaten_state) = [''n1'' \<mapsto> n]" "is_selectable n"
    "nd_id n = ''n1''" "nd_address n = ''10.0.0.1:1080''"
proof -
  let ?n = "new_node sample_request 1700000000000000000" and ?svc = "from_repo_sql sample_env HealthPolicy_default"
  have q: "quiet_inv sample_env (cp_db (service_start sample_db))" using sample_quiet(1) by simp
  have n: "db_map sample_env (cp_db (service_start sample_db)) (hb_node_id (sample_beat 1)) = Some ?n"
    by (simp add: sample_db_ok sample_beat_def)
  from quiet.heartbeat_leaves [OF from_repo_sql_sel(1) q n, of HealthPolicy_default] obtain t u where
    st: "quiet_inv sample_env (cp_db beaten_state)"
      "db_map sample_env (cp_db beaten_state) = [''n1'' \<mapsto> spec_heartbeat HealthPolicy_default (sample_beat 1) t u ?n]"
    by (auto simp: beaten_state_def sample_db_ok sample_beat_def)
  show thesis
    by (rule that [OF st]) (auto simp: spec_heartbeat_def Let_def reclassify_after_heartbeat_def state_node_def beat_node_def
        new_node_def sample_request_def is_selectable_def)
qed

lemma sample_answered:
  "answered_by (script_env inbox) client sample_api (app_state (from_repo_sql sample_env HealthPolicy_default) None)
     {cs_state s |s. cp_server_reach sample_api (utc_now sample_env) (app_state (from_repo_sql sample_env HealthPolicy_default) None) beaten_state s}"
  unfolding answered_by_def
proof (intro allI impI)
  fix tr d call reply
  assume "env_post_within (script_env inbox) tr d call = Inr reply"
  then have reply: "hr_status reply = 200" "hr_json reply = Inr \<lparr>sr_id = ''n1'', sr_address = ''10.0.0.1:1080''\<rparr>"
    by (auto simp: script_env_def)
  let ?svc = "from_repo_sql sample_env HealthPolicy_default"
  let ?app = "app_state ?svc None" and ?q = "sample_post [''nodes'', ''select'']"
  have svc: "app_service ?app = ?svc" by (simp add: app_state_def)
  obtain n where n: "quiet_inv sample_env (cp_db beaten_state)" "db_map sample_env (cp_db beaten_state) = [''n1'' \<mapsto> n]" "is_selectable n"
    "nd_id n = ''n1''" "nd_address n = ''10.0.0.1:1080''" by (rule beaten_state_ok)
  obtain r s1 where run: "service_select ?svc beaten_state = (Inr r, s1)"
    using totalD [OF quiet.total_select [OF from_repo_sql_sel(1)] n(1)] by blast
  have "r = Some n"
    using quiet.service_select_ok [OF n(1) from_repo_sql_sel(1) run] n(2,3) by (cases r) (auto split: if_splits)
  then have "decodes_to (fst (router sample_api ?app ?q beaten_state)) reply"
    using run reply n(4,5)
    by (simp add: decodes_to_def router_def on_method_def sample_post_def respond_def select_node_def svc io_bind_def io_map_err_def
        into_response_def NodeResponse_from_node_def)
  moreover have "beaten_state \<in> {cs_state s |s. cp_server_reach sample_api (utc_now sample_env) ?app beaten_state s}"
    by (intro CollectI exI [of _ "cp_server_start beaten_state"] conjI cs_start) (simp add: cp_server_start_def)
  moreover have "hq_method ?q = POST" "hq_path ?q = [''nodes'', ''select'']" by (simp_all add: sample_post_def)
  ultimately show "\<exists>st \<in> {cs_state s |s. cp_server_reach sample_api (utc_now sample_env) ?app beaten_state s}.
      \<exists>q. hq_method q = POST \<and> hq_path q = [''nodes'', ''select''] \<and> decodes_to (fst (router sample_api ?app q st)) reply"
    by blast
qed

theorem gateway_forwards_to_selectable_nodes_witness:
  "ConnectTo ''10.0.0.1:1080'' (Inr 1) \<in> set (snd (gw_run_with_ctx (script_env sample_inbox) 0 sample_ctx [])) \<and>
   (\<exists>s n. cp_server_reach sample_api (utc_now sample_env) (app_state (from_repo_sql sample_env HealthPolicy_default) None) beaten_state s \<and>
      db_map sample_env (cp_db (cs_state s)) (nd_id n) = Some n \<and> is_selectable n \<and> ''10.0.0.1:1080'' = nd_address n)"
proof -
  have c: "ConnectTo ''10.0.0.1:1080'' (Inr 1) \<in> set (snd (gw_run_with_ctx (script_env sample_inbox) 0 sample_ctx []))"
    using sample_run by (metis snd_conv)
  have "db_inv sample_env (cp_db beaten_state)" using beaten_state_ok by (metis quiet_inv_def)
  moreover have "app_service (app_state (from_repo_sql sample_env HealthPolicy_default) None) = from_repo_sql sample_env HealthPolicy_default"
    by (simp add: app_state_def)
  ultimately show ?thesis
    using c gateway_forwards_to_selectable_nodes [OF _ _ sample_answered surjective_pairing c] by blast
qed

end
